theory Spec2Isabelle
  imports Complex_Main
begin

chapter \<open>The PhET-iO instrumentation layer (tandem): model\<close>

text \<open>
  A shallow embedding of the tandem sources: the IO Type / StateSchema validation
  (\<^verbatim>\<open>types/IOType.js\<close>, \<^verbatim>\<open>types/StateSchema.js\<close>, \<^verbatim>\<open>types/NumberIO.js\<close>), the Tandem name
  tree with its buffered registration (\<^verbatim>\<open>Tandem.js\<close>, \<^verbatim>\<open>DynamicTandem.js\<close>), the dynamic
  element containers (\<^verbatim>\<open>PhetioDynamicElementContainer.js\<close>, \<^verbatim>\<open>PhetioGroup.js\<close>,
  \<^verbatim>\<open>PhetioCapsule.js\<close>) and the overrides check of \<^verbatim>\<open>phetioAPIValidation.js\<close>.

  Conventions, used throughout.
  \<^item> The sources guard every check as \<^verbatim>\<open>assert && assert( c, msg )\<close>. The model is the build
    in which the global \<^verbatim>\<open>assert\<close> is defined (the development build, where the contract
    checks live): such a line is a branch that ends the call with \<open>Inl AssertionError\<close>
    when \<open>c\<close> is false. Reading a property of \<^verbatim>\<open>undefined\<close> or \<^verbatim>\<open>null\<close>, or calling what is not
    a function, ends the call with \<open>Inl TypeError\<close>.
  \<^item> A function that can throw returns \<open>error + 'a\<close>; a method that mutates its object
    takes the state and returns the new one.
  \<^item> Objects compared by reference in the sources (Tandems, PhetioObjects) live in a store
    and are named by their address.
\<close>

section \<open>JavaScript values\<close>

datatype error = AssertionError | TypeError

text \<open>
  A JavaScript number: the three non-finite values, and the finite ones by their real value.
\<close>

datatype jsnum = NaN | PosInf | NegInf | Finite real

text \<open>
  The values a state object is made of. An object is the list of its own enumerable
  properties in enumeration order.
\<close>

datatype jsval =
    JUndefined
  | JNull
  | JBool bool
  | JNum jsnum
  | JStr string
  | JArr "jsval list"
  | JObj "(string \<times> jsval) list"

text \<open>Number to string, for array indices and group element indices.\<close>

definition digit :: "nat \<Rightarrow> char" where
  "digit n = ''0123456789'' ! (n mod 10)"

fun dec :: "nat \<Rightarrow> string" where
  "dec n = (if n < 10 then [digit n] else dec (n div 10) @ [digit n])"

text \<open>Truthiness, as \<^verbatim>\<open>if ( v )\<close> and \<^verbatim>\<open>v && ...\<close> read a value.\<close>

definition truthy :: "jsval \<Rightarrow> bool" where
  "truthy v =
    (case v of
       JUndefined \<Rightarrow> False
     | JNull \<Rightarrow> False
     | JBool b \<Rightarrow> b
     | JNum n \<Rightarrow> (case n of NaN \<Rightarrow> False | Finite r \<Rightarrow> r \<noteq> 0 | PosInf \<Rightarrow> True | NegInf \<Rightarrow> True)
     | JStr s \<Rightarrow> s \<noteq> []
     | JArr xs \<Rightarrow> True
     | JObj kvs \<Rightarrow> True)"

definition isString :: "jsval \<Rightarrow> bool" where
  "isString v = (case v of JStr s \<Rightarrow> True | _ \<Rightarrow> False)"

definition isNumber :: "jsval \<Rightarrow> bool" where
  "isNumber v = (case v of JNum n \<Rightarrow> True | _ \<Rightarrow> False)"

definition isBoolean :: "jsval \<Rightarrow> bool" where
  "isBoolean v = (case v of JBool b \<Rightarrow> True | _ \<Rightarrow> False)"

definition Array_isArray :: "jsval \<Rightarrow> bool" where
  "Array_isArray v = (case v of JArr xs \<Rightarrow> True | _ \<Rightarrow> False)"

text \<open>
  \<^verbatim>\<open>Object.keys\<close>, the call \<^verbatim>\<open>o.hasOwnProperty( k )\<close> and the property read \<^verbatim>\<open>o[ k ]\<close>. Arrays and
  strings own their indices and (not enumerable) \<^verbatim>\<open>length\<close>. The call reads the property
  \<^verbatim>\<open>hasOwnProperty\<close> of \<open>o\<close> first: an object that owns a key of that name shadows the function
  of \<^verbatim>\<open>Object.prototype\<close> with the value of the key, and calling that value (no value of the
  model is a function) is a TypeError. The other properties inherited from a prototype are
  outside the model: a read of a key that is not an own property is \<^verbatim>\<open>undefined\<close>.
\<close>

definition Object_keys :: "jsval \<Rightarrow> string list" where
  "Object_keys v =
    (case v of
       JObj kvs \<Rightarrow> map fst kvs
     | JArr xs \<Rightarrow> map dec [0..<length xs]
     | JStr s \<Rightarrow> map dec [0..<length s]
     | _ \<Rightarrow> [])"

definition hasOwnProperty :: "jsval \<Rightarrow> string \<Rightarrow> error + bool" where
  "hasOwnProperty v k =
    (case v of
       JUndefined \<Rightarrow> Inl TypeError
     | JNull \<Rightarrow> Inl TypeError
     | JObj kvs \<Rightarrow>
         if ''hasOwnProperty'' \<in> set (map fst kvs) then Inl TypeError
         else Inr (k \<in> set (map fst kvs))
     | JArr xs \<Rightarrow> Inr (k = ''length'' \<or> k \<in> set (map dec [0..<length xs]))
     | JStr s \<Rightarrow> Inr (k = ''length'' \<or> k \<in> set (map dec [0..<length s]))
     | _ \<Rightarrow> Inr False)"

definition getProp :: "jsval \<Rightarrow> string \<Rightarrow> error + jsval" where
  "getProp v k =
    (case v of
       JUndefined \<Rightarrow> Inl TypeError
     | JNull \<Rightarrow> Inl TypeError
     | JObj kvs \<Rightarrow> Inr (case map_of kvs k of Some x \<Rightarrow> x | None \<Rightarrow> JUndefined)
     | JArr xs \<Rightarrow>
         Inr (if k = ''length'' then JNum (Finite (real (length xs)))
              else (case find (\<lambda>i. dec i = k) [0..<length xs] of
                      Some i \<Rightarrow> xs ! i | None \<Rightarrow> JUndefined))
     | JStr s \<Rightarrow>
         Inr (if k = ''length'' then JNum (Finite (real (length s)))
              else (case find (\<lambda>i. dec i = k) [0..<length s] of
                      Some i \<Rightarrow> JStr [s ! i] | None \<Rightarrow> JUndefined))
     | _ \<Rightarrow> Inr JUndefined)"

section \<open>IO Types and state schemas\<close>

text \<open>
  \<^verbatim>\<open>StateSchema\<close> is either a value schema (\<^verbatim>\<open>StateSchema.asValue( displayString, validator )\<close>)
  or a composite schema. The composite object \<^verbatim>\<open>{ k1: T1, ..., _private: { ... }, ..., kn: Tn }\<close>
  is kept in the order of its keys: the entries before \<^verbatim>\<open>_private\<close> and, when the object has
  a key \<^verbatim>\<open>_private\<close>, that bucket with the entries after it. \<open>publicEntries\<close> is what
  \<^verbatim>\<open>Object.keys( schema ).filter( k => k !== '_private' )\<close> enumerates, \<open>privateBucket\<close> is
  \<^verbatim>\<open>schema._private\<close>. Every value under a key other than \<^verbatim>\<open>_private\<close> is an IO Type, as
  \<^verbatim>\<open>validateStateSchema\<close> asserts, and the value under \<^verbatim>\<open>_private\<close> is an object of IO Types;
  none of the three lists has an entry with the key \<^verbatim>\<open>_private\<close> (a \<^verbatim>\<open>_private\<close> that is not an
  object, a bucket inside the bucket, and a key \<^verbatim>\<open>__proto__\<close>, which an object literal does
  not create, are outside the model). A validator (axon's \<^verbatim>\<open>ValidatorDef\<close>, not part of these sources) is
  the predicate \<^verbatim>\<open>ValidatorDef.isValueValid( x, validator )\<close> computes.

  An \<open>iotype\<close> holds the fields of \<^verbatim>\<open>IOType\<close> that validation and serialization read.
  \<open>config_toStateObject\<close> and \<open>config_fromStateObject\<close> are the functions given in the
  constructor's config, \<open>None\<close> when the config gives none.
\<close>

datatype stateSchema =
    ValueSchema string "jsval \<Rightarrow> bool"
  | CompositeSchema "(string \<times> iotype) list"
      "((string \<times> iotype) list \<times> (string \<times> iotype) list) option"
and iotype =
    IOType (typeName: string) (supertype: "iotype option") (validator: "jsval \<Rightarrow> bool")
      (config_toStateObject: "(jsval \<Rightarrow> error + jsval) option")
      (config_fromStateObject: "(jsval \<Rightarrow> error + jsval) option")
      (stateSchema: "stateSchema option")

text \<open>\<^verbatim>\<open>StateSchema.isComposite\<close>, and \<^verbatim>\<open>this.stateSchema && this.stateSchema.isComposite()\<close>.\<close>

definition isComposite :: "stateSchema \<Rightarrow> bool" where
  "isComposite s = (case s of CompositeSchema ps pr \<Rightarrow> True | ValueSchema d v \<Rightarrow> False)"

definition hasCompositeSchema :: "stateSchema option \<Rightarrow> bool" where
  "hasCompositeSchema sch = (case sch of Some s \<Rightarrow> isComposite s | None \<Rightarrow> False)"

definition publicEntries ::
    "(string \<times> iotype) list \<Rightarrow> ((string \<times> iotype) list \<times> (string \<times> iotype) list) option
      \<Rightarrow> (string \<times> iotype) list" where
  "publicEntries ps pr = (case pr of None \<Rightarrow> ps | Some (prs, qs) \<Rightarrow> ps @ qs)"

definition privateBucket ::
    "((string \<times> iotype) list \<times> (string \<times> iotype) list) option
      \<Rightarrow> (string \<times> iotype) list option" where
  "privateBucket pr = (case pr of None \<Rightarrow> None | Some (prs, qs) \<Rightarrow> Some prs)"

text \<open>
  The closed-world check at the root of \<^verbatim>\<open>IOType.isStateObjectValid\<close>: \<open>checkKeys\<close> is the
  \<^verbatim>\<open>forEach( key => check( type, key ) )\<close> loop over the keys to visit, \<open>keys\<close> the schema
  keys collected for that bucket, \<open>valid\<close> the closure variable.
\<close>

fun checkKeys :: "string list \<Rightarrow> bool \<Rightarrow> string list \<Rightarrow> bool \<Rightarrow> error + bool" where
  "checkKeys keys toAssert [] valid = Inr valid"
| "checkKeys keys toAssert (key # rest) valid =
    (let keyValid = (key \<in> set keys) in
     if toAssert \<and> \<not> keyValid then Inl AssertionError
     else checkKeys keys toAssert rest (if keyValid then valid else False))"

definition rootCheck :: "jsval \<Rightarrow> bool \<Rightarrow> string list \<Rightarrow> string list \<Rightarrow> error + bool" where
  "rootCheck stateObject toAssert publicSchemaKeys privateSchemaKeys =
    (case checkKeys publicSchemaKeys toAssert
            (filter (\<lambda>key. key \<noteq> ''_private'') (Object_keys stateObject)) True of
       Inl e \<Rightarrow> Inl e
     | Inr valid \<Rightarrow>
        (case getProp stateObject ''_private'' of
           Inl e \<Rightarrow> Inl e
         | Inr p \<Rightarrow>
            if truthy p then checkKeys privateSchemaKeys toAssert (Object_keys p) valid
            else Inr valid))"

text \<open>
  \<^verbatim>\<open>IOType.isStateObjectValid\<close>, \<^verbatim>\<open>IOType.validateStateObject\<close>,
  \<^verbatim>\<open>StateSchema.checkStateObjectValid\<close> and its inner \<^verbatim>\<open>checkLevel\<close>. The two key arrays are
  passed by reference and pushed to in the sources; here \<open>checkStateObjectValid\<close> and
  \<open>checkLevel\<close> return them. \<open>checkStateObjectValid\<close> returns \<open>None\<close> for the source's \<^verbatim>\<open>null\<close>
  (valid so far, keep checking). \<open>checkLevel\<close> carries the closure variable \<open>valid\<close>.
\<close>

function (sequential) isStateObjectValid ::
    "iotype \<Rightarrow> jsval \<Rightarrow> bool \<Rightarrow> string list \<Rightarrow> string list \<Rightarrow> error + bool"
  and validateStateObject :: "iotype \<Rightarrow> jsval \<Rightarrow> error + unit"
  and checkStateObjectValid ::
    "stateSchema \<Rightarrow> jsval \<Rightarrow> bool \<Rightarrow> string list \<Rightarrow> string list
      \<Rightarrow> error + (bool option \<times> string list \<times> string list)"
  and checkLevel ::
    "(string \<times> iotype) list \<Rightarrow> jsval \<Rightarrow> bool \<Rightarrow> string list \<Rightarrow> bool option
      \<Rightarrow> error + (bool option \<times> string list)"
where
  "isStateObjectValid (IOType n super v ts fs sch) stateObject toAssert publicSchemaKeys
      privateSchemaKeys =
    (case (case sch of
             None \<Rightarrow> Inr (None, publicSchemaKeys, privateSchemaKeys)
           | Some s \<Rightarrow>
               checkStateObjectValid s stateObject toAssert publicSchemaKeys privateSchemaKeys) of
       Inl e \<Rightarrow> Inl e
     | Inr (Some validSoFar, pub, priv) \<Rightarrow> Inr validSoFar
     | Inr (None, pub, priv) \<Rightarrow>
        (case super of
           Some st \<Rightarrow>
             if \<not> hasCompositeSchema sch then isStateObjectValid st stateObject toAssert pub priv
             else Inr True
         | None \<Rightarrow>
             if truthy stateObject \<and> \<not> isString stateObject \<and> \<not> Array_isArray stateObject
             then rootCheck stateObject toAssert pub priv
             else Inr True))"
| "validateStateObject t stateObject =
    (case isStateObjectValid t stateObject True [] [] of
       Inl e \<Rightarrow> Inl e
     | Inr b \<Rightarrow> Inr ())"
| "checkStateObjectValid (ValueSchema d vd) stateObject toAssert publicSchemaKeys
      privateSchemaKeys =
    (if toAssert \<and> \<not> vd stateObject then Inl AssertionError
     else Inr (Some (vd stateObject), publicSchemaKeys, privateSchemaKeys))"
| "checkStateObjectValid (CompositeSchema ps pr) stateObject toAssert publicSchemaKeys
      privateSchemaKeys =
    (case checkLevel (publicEntries ps pr) stateObject toAssert publicSchemaKeys None of
       Inl e \<Rightarrow> Inl e
     | Inr (valid, pub) \<Rightarrow>
        (case privateBucket pr of
           None \<Rightarrow> Inr (valid, pub, privateSchemaKeys)
         | Some prs \<Rightarrow>
            (case getProp stateObject ''_private'' of
               Inl e \<Rightarrow> Inl e
             | Inr po \<Rightarrow>
                (case checkLevel prs po toAssert privateSchemaKeys valid of
                   Inl e \<Rightarrow> Inl e
                 | Inr (valid', priv) \<Rightarrow> Inr (valid', pub, priv)))))"
| "checkLevel [] objectLevel toAssert keyList valid = Inr (valid, keyList)"
| "checkLevel ((key, t) # rest) objectLevel toAssert keyList valid =
    (case hasOwnProperty objectLevel key of
       Inl e \<Rightarrow> Inl e
     | Inr validKey \<Rightarrow>
        if toAssert \<and> \<not> validKey then Inl AssertionError
        else
          (case getProp objectLevel key of
             Inl e \<Rightarrow> Inl e
           | Inr x \<Rightarrow>
              (case validateStateObject t x of
                 Inl e \<Rightarrow> Inl e
               | Inr u \<Rightarrow>
                  checkLevel rest objectLevel toAssert (keyList @ [key])
                    (if validKey then valid else Some False))))"
  by pat_completeness auto
termination
  by (relation "measure (\<lambda>x. case x of
        Inl (Inl p) \<Rightarrow> 2 * size (fst p)
      | Inl (Inr p) \<Rightarrow> 2 * size (fst p) + 1
      | Inr (Inl p) \<Rightarrow> 2 * size (fst p)
      | Inr (Inr p) \<Rightarrow> 2 * size_list (size_prod (\<lambda>x. 0) size) (fst p))")
    (auto simp: publicEntries_def privateBucket_def split: option.splits prod.splits)

text \<open>
  The \<^verbatim>\<open>toStateObject\<close> an \<^verbatim>\<open>IOType\<close> instance carries (the wrapper the constructor builds
  around \<^verbatim>\<open>config.toStateObject\<close>), with \<^verbatim>\<open>StateSchema.defaultToStateObject\<close> and its inner
  \<^verbatim>\<open>toStateObjectForSchemaLevel\<close>. \<^verbatim>\<open>config.toStateObject\<close> defaults to
  \<^verbatim>\<open>supertype && supertype.toStateObject\<close>; \<^verbatim>\<open>toStateObjectSupplied\<close> is \<open>ts \<noteq> None\<close> and
  \<^verbatim>\<open>stateSchemaSupplied\<close> is \<open>sch \<noteq> None\<close>. \<^verbatim>\<open>validate( coreObject, this.validator )\<close> throws
  when the validator rejects the value. The default state object has its keys in the order
  of the schema's keys. The loop \<^verbatim>\<open>for ( const stateKey in schema )\<close> asks
  \<^verbatim>\<open>schema.hasOwnProperty( stateKey )\<close> for every key: on a schema level with a key named
  \<^verbatim>\<open>hasOwnProperty\<close> that call is a TypeError, at the first key.
\<close>

function (sequential) toStateObject :: "iotype \<Rightarrow> jsval \<Rightarrow> error + jsval"
  and toStateObjectForSchemaLevel ::
    "(string \<times> iotype) list \<Rightarrow> jsval \<Rightarrow> error + (string \<times> jsval) list"
where
  "toStateObject (IOType n super v ts fs sch) coreObject =
    (if \<not> v coreObject then Inl AssertionError
     else
      (case (if ts = None \<and> hasCompositeSchema sch then
               (case sch of
                  Some (CompositeSchema ps pr) \<Rightarrow>
                    if ''hasOwnProperty'' \<in> set (map fst (publicEntries ps pr)) then
                      Inl TypeError
                    else
                    (case toStateObjectForSchemaLevel ps coreObject of
                       Inl e \<Rightarrow> Inl e
                     | Inr kvs \<Rightarrow>
                        (case pr of
                           None \<Rightarrow> Inr (JObj kvs)
                         | Some (prs, qs) \<Rightarrow>
                            if ''hasOwnProperty'' \<in> set (map fst prs) then Inl TypeError
                            else
                            (case toStateObjectForSchemaLevel prs coreObject of
                               Inl e \<Rightarrow> Inl e
                             | Inr pkvs \<Rightarrow>
                                (case toStateObjectForSchemaLevel qs coreObject of
                                   Inl e \<Rightarrow> Inl e
                                 | Inr kvs' \<Rightarrow>
                                    Inr (JObj (kvs @ [(''_private'', JObj pkvs)] @ kvs'))))))
                | _ \<Rightarrow> Inl TypeError)
             else
               (case ts of
                  Some f \<Rightarrow> f coreObject
                | None \<Rightarrow>
                   (case super of
                      Some st \<Rightarrow> toStateObject st coreObject
                    | None \<Rightarrow> Inl TypeError))) of
         Inl e \<Rightarrow> Inl e
       | Inr stateObject \<Rightarrow>
          if ts \<noteq> None \<or> sch \<noteq> None then
            (case validateStateObject (IOType n super v ts fs sch) stateObject of
               Inl e \<Rightarrow> Inl e
             | Inr u \<Rightarrow> Inr stateObject)
          else Inr stateObject))"
| "toStateObjectForSchemaLevel [] coreObject = Inr []"
| "toStateObjectForSchemaLevel ((stateKey, t) # rest) coreObject =
    (case hasOwnProperty coreObject stateKey of
       Inl e \<Rightarrow> Inl e
     | Inr has \<Rightarrow>
        if \<not> has then Inl AssertionError
        else
          (case getProp coreObject stateKey of
             Inl e \<Rightarrow> Inl e
           | Inr x \<Rightarrow>
              (case toStateObject t x of
                 Inl e \<Rightarrow> Inl e
               | Inr so \<Rightarrow>
                  (case toStateObjectForSchemaLevel rest coreObject of
                     Inl e \<Rightarrow> Inl e
                   | Inr kvs \<Rightarrow> Inr ((stateKey, so) # kvs)))))"
  by pat_completeness auto
termination
  by (relation "measure (\<lambda>x. case x of
        Inl p \<Rightarrow> size (fst p)
      | Inr p \<Rightarrow> size_list (size_prod (\<lambda>x. 0) size) (fst p))")
    auto

text \<open>\<^verbatim>\<open>this.fromStateObject = config.fromStateObject\<close>, defaulting to the supertype's.\<close>

fun fromStateObject :: "iotype \<Rightarrow> jsval \<Rightarrow> error + jsval" where
  "fromStateObject (IOType n super v ts fs sch) stateObject =
    (case fs of
       Some f \<Rightarrow> f stateObject
     | None \<Rightarrow>
        (case super of
           Some st \<Rightarrow> fromStateObject st stateObject
         | None \<Rightarrow> Inl TypeError))"

subsection \<open>The IO Types of the sources\<close>

text \<open>
  \<^verbatim>\<open>ObjectIO\<close>, the root (\<^verbatim>\<open>supertype: null\<close>, \<^verbatim>\<open>stateSchema: null\<close>); its \<^verbatim>\<open>toStateObject\<close>
  asserts \<^verbatim>\<open>!coreObject.phetioState\<close> and returns \<^verbatim>\<open>null\<close>. The message of the assertion is a
  template literal that reads \<^verbatim>\<open>coreObject.tandem.phetioID\<close>; it is evaluated before \<^verbatim>\<open>assert\<close>
  is called, whatever the condition.
\<close>

definition ObjectIO_toStateObject :: "jsval \<Rightarrow> error + jsval" where
  "ObjectIO_toStateObject coreObject =
    (case getProp coreObject ''phetioState'' of
       Inl e \<Rightarrow> Inl e
     | Inr p \<Rightarrow>
        (case getProp coreObject ''tandem'' of
           Inl e \<Rightarrow> Inl e
         | Inr t \<Rightarrow>
            (case getProp t ''phetioID'' of
               Inl e \<Rightarrow> Inl e
             | Inr pid \<Rightarrow> if truthy p then Inl AssertionError else Inr JNull)))"

definition ObjectIO :: iotype where
  "ObjectIO =
    IOType ''ObjectIO'' None (\<lambda>x. True) (Some ObjectIO_toStateObject)
      (Some (\<lambda>stateObject. Inr JNull)) None"

text \<open>\<^verbatim>\<open>ValueIO\<close>, \<^verbatim>\<open>StringIO\<close> and \<^verbatim>\<open>BooleanIO\<close>.\<close>

definition ValueIO :: iotype where
  "ValueIO =
    IOType ''ValueIO'' (Some ObjectIO) (\<lambda>x. True) (Some (\<lambda>coreObject. Inr coreObject))
      (Some (\<lambda>stateObject. Inr stateObject)) (Some (ValueSchema ''*'' (\<lambda>x. True)))"

definition StringIO :: iotype where
  "StringIO =
    IOType ''StringIO'' (Some ValueIO) isString None None
      (Some (ValueSchema ''string'' isString))"

definition BooleanIO :: iotype where
  "BooleanIO =
    IOType ''BooleanIO'' (Some ValueIO) isBoolean None None
      (Some (ValueSchema ''boolean'' isBoolean))"

text \<open>
  \<^verbatim>\<open>NumberIO\<close> (\<^verbatim>\<open>types/NumberIO.js\<close>): the three functions of its config, as written there,
  and the instance. \<^verbatim>\<open>typeof value === 'number' && !isNaN( value )\<close> is the last disjunct of
  the schema's validator.
\<close>

definition NumberIO_toStateObject :: "jsval \<Rightarrow> jsval" where
  "NumberIO_toStateObject v =
    (if v = JNum PosInf then JStr ''POSITIVE_INFINITY''
     else if v = JNum NegInf then JStr ''NEGATIVE_INFINITY''
     else v)"

definition NumberIO_fromStateObject :: "jsval \<Rightarrow> jsval" where
  "NumberIO_fromStateObject stateObject =
    (if stateObject = JStr ''POSITIVE_INFINITY'' then JNum PosInf
     else if stateObject = JStr ''NEGATIVE_INFINITY'' then JNum NegInf
     else stateObject)"

definition NumberIO_isValidValue :: "jsval \<Rightarrow> bool" where
  "NumberIO_isValidValue v =
    (v = JStr ''POSITIVE_INFINITY'' \<or> v = JStr ''NEGATIVE_INFINITY'' \<or>
     (case v of JNum x \<Rightarrow> x \<noteq> NaN | _ \<Rightarrow> False))"

definition NumberIO_displayString :: string where
  "NumberIO_displayString =
    [CHR 0x27] @ ''POSITIVE_INFINITY'' @ [CHR 0x27] @ ''|'' @
    [CHR 0x27] @ ''NEGATIVE_INFINITY'' @ [CHR 0x27] @ ''|number''"

definition NumberIO :: iotype where
  "NumberIO =
    IOType ''NumberIO'' (Some ObjectIO) isNumber
      (Some (\<lambda>v. Inr (NumberIO_toStateObject v)))
      (Some (\<lambda>stateObject. Inr (NumberIO_fromStateObject stateObject)))
      (Some (ValueSchema NumberIO_displayString NumberIO_isValidValue))"

text \<open>
  What \<^verbatim>\<open>isStateObjectValid\<close> is specified to check, stated apart from the code.
  \<open>levelValid\<close>: every key a schema level declares is an own property of the object level
  (\<^verbatim>\<open>objectLevel.hasOwnProperty( key )\<close> answers \<^verbatim>\<open>true\<close>), and its value passes the validation of
  the key's IO Type. \<open>declaredKeysValid\<close>: that, for the
  public entries against the state object and for the \<^verbatim>\<open>_private\<close> bucket against
  \<^verbatim>\<open>stateObject._private\<close>. \<open>noExtraKeys\<close>: the closed-world condition, for a state object
  that is not falsy, a string or an array: every public key other than \<^verbatim>\<open>_private\<close> is among
  the public schema keys, and every key under a truthy \<^verbatim>\<open>_private\<close> among the private ones.
\<close>

definition levelValid :: "(string \<times> iotype) list \<Rightarrow> jsval \<Rightarrow> bool" where
  "levelValid schemaLevel objectLevel =
    list_all
      (\<lambda>(key, t).
         hasOwnProperty objectLevel key = Inr True \<and>
         (case getProp objectLevel key of
            Inl e \<Rightarrow> False
          | Inr x \<Rightarrow> validateStateObject t x = Inr ()))
      schemaLevel"

definition declaredKeysValid ::
    "(string \<times> iotype) list \<Rightarrow> (string \<times> iotype) list option \<Rightarrow> jsval \<Rightarrow> bool" where
  "declaredKeysValid ps pr stateObject =
    (levelValid ps stateObject \<and>
     (case pr of
        None \<Rightarrow> True
      | Some prs \<Rightarrow>
         (case getProp stateObject ''_private'' of
            Inl e \<Rightarrow> False
          | Inr po \<Rightarrow> levelValid prs po)))"

definition privateKeysOf :: "(string \<times> iotype) list option \<Rightarrow> string list" where
  "privateKeysOf pr = (case pr of None \<Rightarrow> [] | Some prs \<Rightarrow> map fst prs)"

definition noExtraKeys :: "string list \<Rightarrow> string list \<Rightarrow> jsval \<Rightarrow> bool" where
  "noExtraKeys publicKeys privateKeys stateObject =
    (if truthy stateObject \<and> \<not> isString stateObject \<and> \<not> Array_isArray stateObject then
       list_all (\<lambda>key. key \<in> set publicKeys)
         (filter (\<lambda>key. key \<noteq> ''_private'') (Object_keys stateObject)) \<and>
       (case getProp stateObject ''_private'' of
          Inl e \<Rightarrow> False
        | Inr p \<Rightarrow>
           (if truthy p then list_all (\<lambda>key. key \<in> set privateKeys) (Object_keys p)
            else True))
     else True)"

text \<open>
  Modelled from the spec: \<^verbatim>\<open>PhetioConstants\<close> is not in the sources. Type names end in a fixed
  suffix, which the documentation of the constructor gives as \<^verbatim>\<open>IO\<close>.
\<close>

definition IO_TYPE_SUFFIX :: string where
  "IO_TYPE_SUFFIX = ''IO''"

definition endsWith :: "string \<Rightarrow> string \<Rightarrow> bool" where
  "endsWith s suffix = (length suffix \<le> length s \<and> drop (length s - length suffix) s = suffix)"

text \<open>
  \<^verbatim>\<open>StateSchema.validateStateSchema\<close>, which the constructor of \<^verbatim>\<open>StateSchema\<close> runs on a
  composite schema: the loop \<^verbatim>\<open>for ( const stateSchemaKey in stateSchema )\<close> asks
  \<^verbatim>\<open>stateSchema.hasOwnProperty( stateSchemaKey )\<close>, a TypeError on a level with a key named
  \<^verbatim>\<open>hasOwnProperty\<close>; it descends into \<^verbatim>\<open>_private\<close>. Its assertion that every other value is
  an IO Type holds of every \<open>stateSchema\<close> of the model.
\<close>

definition validateStateSchema :: "stateSchema \<Rightarrow> error + unit" where
  "validateStateSchema s =
    (case s of
       ValueSchema d vd \<Rightarrow> Inr ()
     | CompositeSchema ps pr \<Rightarrow>
        if ''hasOwnProperty'' \<in> set (map fst (publicEntries ps pr)) then Inl TypeError
        else
          (case privateBucket pr of
             None \<Rightarrow> Inr ()
           | Some prs \<Rightarrow>
              if ''hasOwnProperty'' \<in> set (map fst prs) then Inl TypeError else Inr ()))"

text \<open>
  The constructor \<^verbatim>\<open>new IOType( ioTypeName, config )\<close>, for the fields of the config that the
  model keeps. \<open>moduleObjectIO\<close> is the module's variable \<^verbatim>\<open>ObjectIO\<close> when the constructor runs:
  \<^verbatim>\<open>null\<close> while \<^verbatim>\<open>ObjectIO\<close> itself is constructed, \<^verbatim>\<open>ObjectIO\<close> from then on. The supertype is
  \<^verbatim>\<open>config.supertype || ObjectIO\<close>. The state schema of the config is a \<^verbatim>\<open>StateSchema\<close> or is
  made one, so it has passed \<^verbatim>\<open>validateStateSchema\<close> before the constructor asserts that there
  is a supertype unless the name is \<^verbatim>\<open>ObjectIO\<close>, that the name has no dot, and that the name
  up to the first \<^verbatim>\<open><\<close> or \<^verbatim>\<open>(\<close> ends with the suffix.
\<close>

definition newIOType ::
    "iotype option \<Rightarrow> string \<Rightarrow> iotype option \<Rightarrow> (jsval \<Rightarrow> bool) \<Rightarrow>
     (jsval \<Rightarrow> error + jsval) option \<Rightarrow> (jsval \<Rightarrow> error + jsval) option \<Rightarrow>
     stateSchema option \<Rightarrow> error + iotype" where
  "newIOType moduleObjectIO ioTypeName configSupertype isValidValue configToStateObject
      configFromStateObject configStateSchema =
    (let super = (case configSupertype of Some t \<Rightarrow> Some t | None \<Rightarrow> moduleObjectIO) in
     case (case configStateSchema of None \<Rightarrow> Inr () | Some s \<Rightarrow> validateStateSchema s) of
       Inl e \<Rightarrow> Inl e
     | Inr u \<Rightarrow>
     if (case super of None \<Rightarrow> ioTypeName \<noteq> ''ObjectIO'' | Some t \<Rightarrow> False) then
       Inl AssertionError
     else if CHR ''.'' \<in> set ioTypeName then Inl AssertionError
     else if \<not> endsWith (takeWhile (\<lambda>c. c \<noteq> CHR ''<'' \<and> c \<noteq> CHR ''('') ioTypeName)
                IO_TYPE_SUFFIX then
       Inl AssertionError
     else
       Inr (IOType ioTypeName super isValidValue configToStateObject configFromStateObject
              configStateSchema))"

text \<open>
  The scenario's type and state objects:
  \<^verbatim>\<open>new IOType( 'ABIO', { isValidValue: () => true, stateSchema: { a: NumberIO, b: StringIO } } )\<close>,
  \<^verbatim>\<open>{ a: 1, b: "hi", c: true }\<close> and \<^verbatim>\<open>{ a: 1, b: "hi" }\<close>.
\<close>

definition ABIO :: "error + iotype" where
  "ABIO =
    newIOType (Some ObjectIO) ''ABIO'' None (\<lambda>x. True) None None
      (Some (CompositeSchema [(''a'', NumberIO), (''b'', StringIO)] None))"

definition stateABC :: jsval where
  "stateABC = JObj [(''a'', JNum (Finite 1)), (''b'', JStr ''hi''), (''c'', JBool True)]"

definition stateAB :: jsval where
  "stateAB = JObj [(''a'', JNum (Finite 1)), (''b'', JStr ''hi'')]"

text \<open>\<^verbatim>\<open>t.fromStateObject( t.toStateObject( x ) )\<close>.\<close>

definition roundTrip :: "iotype \<Rightarrow> jsval \<Rightarrow> error + jsval" where
  "roundTrip t x =
    (case toStateObject t x of
       Inl e \<Rightarrow> Inl e
     | Inr stateObject \<Rightarrow> fromStateObject t stateObject)"

section \<open>Sequencing calls that can throw\<close>

text \<open>
  \<open>bindE m f\<close> runs \<open>f\<close> on the result of \<open>m\<close>, unless \<open>m\<close> threw; \<open>assertE c\<close> is
  \<^verbatim>\<open>assert && assert( c )\<close>.
\<close>

definition bindE :: "error + 'a \<Rightarrow> ('a \<Rightarrow> error + 'b) \<Rightarrow> error + 'b" where
  "bindE m f = (case m of Inl e \<Rightarrow> Inl e | Inr x \<Rightarrow> f x)"

definition assertE :: "bool \<Rightarrow> error + unit" where
  "assertE c = (if c then Inr () else Inl AssertionError)"

section \<open>The Tandem tree and the registry of PhetioObjects\<close>

text \<open>
  The module constants of \<^verbatim>\<open>Tandem.js\<close> that the code branches on, fixed for a run, and
  \<^verbatim>\<open>phet.joist.sim.isSettingPhetioStateProperty.value\<close> (false when \<^verbatim>\<open>phet.joist.sim\<close> is
  absent).
\<close>

record config =
  PHET_IO_ENABLED :: bool
  VALIDATION :: bool
  isSettingPhetioState :: bool

text \<open>
  A Tandem: its class (for \<^verbatim>\<open>getTermRegex\<close>, \<^verbatim>\<open>instanceof DynamicTandem\<close> and the root's allow
  list) and its fields. \<^verbatim>\<open>children\<close> is the object \<^verbatim>\<open>{ name: Tandem }\<close>, in insertion order,
  holding addresses. A PhetioObject holds the fields the registry and the containers read.
\<close>

datatype tandemClass = Tandem | RootTandem | DynamicTandem | GroupTandem

record tandem =
  tandemClass :: tandemClass
  parentTandem :: "nat option"
  name :: string
  phetioID :: string
  children :: "(string \<times> nat) list"
  required :: bool
  supplied :: bool
  tandemIsDisposed :: bool

record phetioObject =
  tandem :: nat
  phetioType :: string
  phetioDynamicElement :: bool
  phetioObjectInitialized :: bool
  isDisposed :: bool

text \<open>
  What a listener given to \<^verbatim>\<open>Tandem.addPhetioObjectListener\<close> is called with: the listener
  (by its position in \<^verbatim>\<open>phetioObjectListeners\<close> when it was added) and the PhetioObject.
\<close>

datatype notification = AddPhetioObject nat nat | RemovePhetioObject nat nat

text \<open>
  The state the module keeps: the two stores (an address is a position in the store; a new
  object is appended, and none is ever removed), \<^verbatim>\<open>Tandem.launched\<close>, \<^verbatim>\<open>bufferedPhetioObjects\<close>, \<^verbatim>\<open>phetioObjectListeners\<close>, and the
  calls made to the listeners so far.
\<close>

record world =
  tandems :: "tandem list"
  objects :: "phetioObject list"
  launched :: bool
  bufferedPhetioObjects :: "nat list"
  phetioObjectListeners :: "nat list"
  notifications :: "notification list"

text \<open>Dereferencing an address; one that names nothing cannot arise from the operations.\<close>

definition getTandem :: "world \<Rightarrow> nat \<Rightarrow> error + tandem" where
  "getTandem w a = (if a < length (tandems w) then Inr (tandems w ! a) else Inl TypeError)"

definition getObject :: "world \<Rightarrow> nat \<Rightarrow> error + phetioObject" where
  "getObject w a = (if a < length (objects w) then Inr (objects w ! a) else Inl TypeError)"

text \<open>
  \<^verbatim>\<open>getTermRegex\<close>: \<^verbatim>\<open>/^[a-zA-Z0-9[\],]+$/\<close> for a Tandem, \<^verbatim>\<open>/^[a-zA-Z0-9_]+$/\<close> for a
  DynamicTandem.
\<close>

definition isAlphaNumeric :: "char \<Rightarrow> bool" where
  "isAlphaNumeric c =
    (c \<in> set ''abcdefghijklmnopqrstuvwxyzABCDEFGHIJKLMNOPQRSTUVWXYZ0123456789'')"

definition termRegexTest :: "tandemClass \<Rightarrow> string \<Rightarrow> bool" where
  "termRegexTest cls s =
    (s \<noteq> [] \<and>
     (if cls = DynamicTandem then list_all (\<lambda>c. isAlphaNumeric c \<or> c = CHR ''_'') s
      else list_all (\<lambda>c. isAlphaNumeric c \<or> c \<in> set ''[],'') s))"

text \<open>
  Modelled from the spec: \<^verbatim>\<open>window.phetio.PhetioIDUtils\<close> is not in the sources. \<^verbatim>\<open>append\<close>
  joins the parent's phetioID and the name with the separator (a dot: the sources' comments
  write phetioIDs as \<^verbatim>\<open>sim.screen1.particles.particles_7\<close>), \<^verbatim>\<open>GROUP_SEPARATOR\<close> is the
  underscore of \<^verbatim>\<open>particles_7\<close>, and the two component names are those of the Tandems
  \<^verbatim>\<open>Tandem.js\<close> documents as nested under "general" and "global".
\<close>

definition PhetioIDUtils_append :: "string \<Rightarrow> string \<Rightarrow> string" where
  "PhetioIDUtils_append parentID componentName = parentID @ ''.'' @ componentName"

definition GROUP_SEPARATOR :: string where
  "GROUP_SEPARATOR = ''_''"

definition GENERAL_COMPONENT_NAME :: string where
  "GENERAL_COMPONENT_NAME = ''general''"

definition GLOBAL_COMPONENT_NAME :: string where
  "GLOBAL_COMPONENT_NAME = ''global''"

definition METADATA_KEY :: string where
  "METADATA_KEY = ''_metadata''"

text \<open>
  The options object \<^verbatim>\<open>{ required, supplied }\<close>: \<open>None\<close> for a key the object does not have.
  \<open>mergeOptions\<close> is \<^verbatim>\<open>merge( defaults, options )\<close> on these two keys.
\<close>

record tandemOptions =
  optRequired :: "bool option"
  optSupplied :: "bool option"

definition noOptions :: tandemOptions where
  "noOptions = \<lparr>optRequired = None, optSupplied = None\<rparr>"

definition mergeOptions :: "bool \<Rightarrow> bool \<Rightarrow> tandemOptions \<Rightarrow> tandemOptions" where
  "mergeOptions defaultRequired defaultSupplied options =
    \<lparr>optRequired = Some (case optRequired options of Some b \<Rightarrow> b | None \<Rightarrow> defaultRequired),
     optSupplied = Some (case optSupplied options of Some b \<Rightarrow> b | None \<Rightarrow> defaultSupplied)\<rparr>"

definition getExtendedOptions :: "tandem \<Rightarrow> tandemOptions \<Rightarrow> tandemOptions" where
  "getExtendedOptions t options = mergeOptions (required t) (supplied t) options"

text \<open>
  \<^verbatim>\<open>hasChild\<close> is \<^verbatim>\<open>this.children.hasOwnProperty( name )\<close>, and \<^verbatim>\<open>this.children\<close> is a plain
  object: once it has a child named \<^verbatim>\<open>hasOwnProperty\<close>, \<^verbatim>\<open>this.children.hasOwnProperty\<close> is that
  Tandem and not the function of \<^verbatim>\<open>Object.prototype\<close>, and calling it is a TypeError. (The
  patterns of \<^verbatim>\<open>getTermRegex\<close> admit the name \<^verbatim>\<open>hasOwnProperty\<close>.)
\<close>

definition hasChild :: "tandem \<Rightarrow> string \<Rightarrow> error + bool" where
  "hasChild t childName =
    (if ''hasOwnProperty'' \<in> set (map fst (children t)) then Inl TypeError
     else Inr (childName \<in> set (map fst (children t))))"

text \<open>
  \<^verbatim>\<open>addChild\<close> and \<^verbatim>\<open>removeChild\<close>, on the Tandem at address \<open>a\<close>. The assignment
  \<^verbatim>\<open>this.children[ name ] = tandem\<close> with the name \<^verbatim>\<open>__proto__\<close> (which the pattern of
  \<^verbatim>\<open>DynamicTandem\<close>, with its underscore, admits) sets the prototype of the plain object and
  gives it no own property: that child is not recorded.
\<close>

definition addChild :: "nat \<Rightarrow> string \<Rightarrow> nat \<Rightarrow> world \<Rightarrow> error + world" where
  "addChild a childName child w =
    bindE (getTandem w a) (\<lambda>t.
    bindE (hasChild t childName) (\<lambda>has.
    bindE (assertE (\<not> has)) (\<lambda>u.
    Inr (w\<lparr>tandems := (tandems w)[a :=
              t\<lparr>children := children t @
                  (if childName = ''__proto__'' then [] else [(childName, child)])\<rparr>]\<rparr>))))"

definition removeChild :: "nat \<Rightarrow> string \<Rightarrow> world \<Rightarrow> error + world" where
  "removeChild a childName w =
    bindE (getTandem w a) (\<lambda>t.
    bindE (hasChild t childName) (\<lambda>has.
    bindE (assertE has) (\<lambda>u.
    Inr (w\<lparr>tandems := (tandems w)[a :=
              t\<lparr>children := filter (\<lambda>p. fst p \<noteq> childName) (children t)\<rparr>]\<rparr>))))"

text \<open>
  The constructors of \<^verbatim>\<open>Tandem\<close> and its subclasses (\<^verbatim>\<open>DynamicTandem\<close> first asserts that it
  has a parent). The new Tandem is appended to the store; the result is its address.
\<close>

definition newTandem ::
    "tandemClass \<Rightarrow> nat option \<Rightarrow> string \<Rightarrow> tandemOptions \<Rightarrow> world \<Rightarrow> error + (nat \<times> world)" where
  "newTandem cls parent nm options w =
    bindE (assertE (cls = DynamicTandem \<longrightarrow> parent \<noteq> None)) (\<lambda>u.
    bindE (assertE (termRegexTest cls nm)) (\<lambda>u.
    bindE (assertE (nm \<noteq> METADATA_KEY)) (\<lambda>u.
    bindE (case parent of
             None \<Rightarrow> Inr nm
           | Some p \<Rightarrow> bindE (getTandem w p) (\<lambda>pt. Inr (PhetioIDUtils_append (phetioID pt) nm)))
      (\<lambda>pid.
    let a = length (tandems w);
        merged = mergeOptions True True options;
        this = \<lparr>tandemClass = cls, parentTandem = parent, name = nm, phetioID = pid,
                children = [], required = the (optRequired merged),
                supplied = the (optSupplied merged), tandemIsDisposed = False\<rparr>;
        w1 = w\<lparr>tandems := tandems w @ [this]\<rparr>
    in
    bindE (case parent of
             None \<Rightarrow> Inr w1
           | Some p \<Rightarrow>
               bindE (getTandem w1 p) (\<lambda>pt.
               bindE (hasChild pt nm) (\<lambda>has.
               bindE (assertE (\<not> has)) (\<lambda>u. addChild p nm a w1))))
      (\<lambda>w2. Inr (a, w2))))))"

text \<open>
  \<^verbatim>\<open>Tandem.createTandem\<close>, with the override of \<^verbatim>\<open>RootTandem\<close> (the allow list, checked
  when \<^verbatim>\<open>Tandem.VALIDATION\<close>) in front.
\<close>

definition allowedOnRoot :: "string \<Rightarrow> bool" where
  "allowedOnRoot nm =
    (nm = GLOBAL_COMPONENT_NAME \<or> nm = ''requiredTandem'' \<or> nm = ''optionalTandem'' \<or>
     nm = ''test'' \<or> nm = GENERAL_COMPONENT_NAME \<or> endsWith nm ''Screen'')"

definition createTandem ::
    "config \<Rightarrow> nat \<Rightarrow> string \<Rightarrow> tandemOptions \<Rightarrow> world \<Rightarrow> error + (nat \<times> world)" where
  "createTandem cfg a nm options w =
    bindE (getTandem w a) (\<lambda>t.
    bindE (assertE (tandemClass t = RootTandem \<and> VALIDATION cfg \<longrightarrow> allowedOnRoot nm)) (\<lambda>u.
    let options' = getExtendedOptions t options in
    bindE (hasChild t nm) (\<lambda>has.
    if has then
      (case map_of (children t) nm of
         None \<Rightarrow> Inl TypeError
       | Some c \<Rightarrow>
          bindE (getTandem w c) (\<lambda>currentChild.
          bindE (assertE (Some (required currentChild) = optRequired options')) (\<lambda>u.
          bindE (assertE (Some (supplied currentChild) = optSupplied options')) (\<lambda>u.
          Inr (c, w)))))
    else newTandem Tandem (Some a) nm options' w)))"

text \<open>\<^verbatim>\<open>Tandem.dispose\<close>.\<close>

definition Tandem_dispose :: "nat \<Rightarrow> world \<Rightarrow> error + world" where
  "Tandem_dispose a w =
    bindE (getTandem w a) (\<lambda>t.
    bindE (assertE (\<not> tandemIsDisposed t)) (\<lambda>u.
    bindE (case parentTandem t of
             None \<Rightarrow> Inl TypeError
           | Some p \<Rightarrow> removeChild p (name t) w) (\<lambda>w1.
    bindE (getTandem w1 a) (\<lambda>t1.
    Inr (w1\<lparr>tandems := (tandems w1)[a := t1\<lparr>tandemIsDisposed := True\<rparr>]\<rparr>)))))"

text \<open>
  \<^verbatim>\<open>Tandem.addPhetioObject\<close> and \<^verbatim>\<open>Tandem.removePhetioObject\<close>, called on the Tandem at
  address \<open>a\<close> with the PhetioObject at address \<open>ob\<close>. A call to a listener is recorded in
  \<open>notifications\<close>.
\<close>

definition addPhetioObject :: "config \<Rightarrow> nat \<Rightarrow> nat \<Rightarrow> world \<Rightarrow> error + world" where
  "addPhetioObject cfg a ob w =
    (if PHET_IO_ENABLED cfg then
       bindE (getTandem w a) (\<lambda>t.
       bindE (assertE (VALIDATION cfg \<longrightarrow> \<not> (required t \<and> \<not> supplied t))) (\<lambda>u.
       if \<not> required t \<and> \<not> supplied t then Inr w
       else if \<not> launched w then
         Inr (w\<lparr>bufferedPhetioObjects := bufferedPhetioObjects w @ [ob]\<rparr>)
       else
         Inr (w\<lparr>notifications :=
                  notifications w @ map (\<lambda>l. AddPhetioObject l ob) (phetioObjectListeners w)\<rparr>)))
     else Inr w)"

text \<open>
  Modelled from the spec: \<^verbatim>\<open>arrayRemove\<close> (phet-core) is not in the sources. Removing an
  element that is absent is a fatal precondition violation; otherwise its first occurrence
  is removed.
\<close>

definition arrayRemove :: "'a list \<Rightarrow> 'a \<Rightarrow> error + 'a list" where
  "arrayRemove array toRemove =
    (if toRemove \<in> set array then Inr (remove1 toRemove array) else Inl AssertionError)"

definition removePhetioObject :: "config \<Rightarrow> nat \<Rightarrow> nat \<Rightarrow> world \<Rightarrow> error + world" where
  "removePhetioObject cfg a ob w =
    bindE (getTandem w a) (\<lambda>t.
    if \<not> required t \<and> \<not> supplied t then Inr w
    else
      bindE (if PHET_IO_ENABLED cfg then
               (if \<not> launched w then
                  bindE (assertE (ob \<in> set (bufferedPhetioObjects w))) (\<lambda>u.
                  bindE (arrayRemove (bufferedPhetioObjects w) ob) (\<lambda>buffer.
                  Inr (w\<lparr>bufferedPhetioObjects := buffer\<rparr>)))
                else
                  Inr (w\<lparr>notifications :=
                           notifications w @
                           map (\<lambda>l. RemovePhetioObject l ob) (phetioObjectListeners w)\<rparr>))
             else Inr w) (\<lambda>w1.
      bindE (getObject w1 ob) (\<lambda>phetioObject. Tandem_dispose (tandem phetioObject) w1)))"

text \<open>\<^verbatim>\<open>Tandem.addPhetioObjectListener\<close> and \<^verbatim>\<open>Tandem.unlaunch\<close>.\<close>

definition addPhetioObjectListener :: "nat \<Rightarrow> world \<Rightarrow> world" where
  "addPhetioObjectListener l w = w\<lparr>phetioObjectListeners := phetioObjectListeners w @ [l]\<rparr>"

definition unlaunch :: "world \<Rightarrow> world" where
  "unlaunch w = w\<lparr>launched := False, bufferedPhetioObjects := []\<rparr>"

text \<open>
  \<^verbatim>\<open>Tandem.launch\<close>. Its \<^verbatim>\<open>while ( bufferedPhetioObjects.length > 0 )\<close> loop shifts the first
  buffered object and calls \<^verbatim>\<open>phetioObject.tandem.addPhetioObject( phetioObject )\<close>; were
  \<^verbatim>\<open>launched\<close> false there, the object would be pushed back and the loop would not end, so
  the loop is a partial function and \<open>None\<close> is not returning.
\<close>

partial_function (option) launchLoop :: "config \<Rightarrow> world \<Rightarrow> (error + world) option" where
  "launchLoop cfg w =
    (case bufferedPhetioObjects w of
       [] \<Rightarrow> Some (Inr w)
     | ob # rest \<Rightarrow>
        (case bindE (getObject w ob) (\<lambda>phetioObject.
                addPhetioObject cfg (tandem phetioObject) ob (w\<lparr>bufferedPhetioObjects := rest\<rparr>)) of
           Inl e \<Rightarrow> Some (Inl e)
         | Inr w1 \<Rightarrow> launchLoop cfg w1))"

definition launch :: "config \<Rightarrow> world \<Rightarrow> (error + world) option" where
  "launch cfg w =
    (if launched w then Some (Inl AssertionError)
     else
      (case launchLoop cfg (w\<lparr>launched := True\<rparr>) of
         None \<Rightarrow> None
       | Some (Inl e) \<Rightarrow> Some (Inl e)
       | Some (Inr w1) \<Rightarrow>
          Some (bindE (assertE (bufferedPhetioObjects w1 = [])) (\<lambda>u. Inr w1))))"

text \<open>
  \<^verbatim>\<open>PhetioObject.isPhetioInstrumented\<close> (\<^verbatim>\<open>this.tandem && this.tandem.supplied\<close>), and the
  registration a PhetioObject makes at the end of \<^verbatim>\<open>initializePhetioObject\<close>:
  \<^verbatim>\<open>this.tandem.addPhetioObject( this )\<close>; \<open>registerAll\<close> makes it for a list of objects in
  order.
\<close>

definition isPhetioInstrumented :: "world \<Rightarrow> nat \<Rightarrow> error + bool" where
  "isPhetioInstrumented w ob =
    bindE (getObject w ob) (\<lambda>phetioObject.
    bindE (getTandem w (tandem phetioObject)) (\<lambda>t. Inr (supplied t)))"

definition register :: "config \<Rightarrow> nat \<Rightarrow> world \<Rightarrow> error + world" where
  "register cfg ob w =
    bindE (getObject w ob) (\<lambda>phetioObject. addPhetioObject cfg (tandem phetioObject) ob w)"

fun registerAll :: "config \<Rightarrow> nat list \<Rightarrow> world \<Rightarrow> error + world" where
  "registerAll cfg [] w = Inr w"
| "registerAll cfg (ob # rest) w =
    (case register cfg ob w of
       Inl e \<Rightarrow> Inl e
     | Inr w1 \<Rightarrow> registerAll cfg rest w1)"

text \<open>The calls \<^verbatim>\<open>addPhetioObject\<close> makes to the listeners for one object, in listener order.\<close>

definition notifyAdded :: "nat list \<Rightarrow> nat \<Rightarrow> notification list" where
  "notifyAdded listeners ob = map (\<lambda>l. AddPhetioObject l ob) listeners"

text \<open>
  A world with no Tandem and no PhetioObject, before launch, and the options
  \<^verbatim>\<open>{ required: r, supplied: s }\<close>.
\<close>

definition emptyWorld :: world where
  "emptyWorld =
    \<lparr>tandems = [], objects = [], launched = False, bufferedPhetioObjects = [],
     phetioObjectListeners = [], notifications = []\<rparr>"

definition flags :: "bool \<Rightarrow> bool \<Rightarrow> tandemOptions" where
  "flags r s = \<lparr>optRequired = Some r, optSupplied = Some s\<rparr>"

text \<open>
  A world to run the operations in: the root Tandem \<^verbatim>\<open>sim\<close> (address 0), \<^verbatim>\<open>sim.test\<close>
  (address 1, as \<^verbatim>\<open>Tandem.ROOT_TEST\<close>) with four children, and four PhetioObjects, one on
  each child; one listener, named 7; nothing registered, not launched.
\<close>

definition plainTandem :: "nat option \<Rightarrow> string \<Rightarrow> string \<Rightarrow> (string \<times> nat) list \<Rightarrow> tandem" where
  "plainTandem parent nm pid cs =
    \<lparr>tandemClass = Tandem, parentTandem = parent, name = nm, phetioID = pid, children = cs,
     required = True, supplied = True, tandemIsDisposed = False\<rparr>"

definition staticObject :: "nat \<Rightarrow> phetioObject" where
  "staticObject t =
    \<lparr>tandem = t, phetioType = ''ObjectIO'', phetioDynamicElement = False,
     phetioObjectInitialized = False, isDisposed = False\<rparr>"

definition demoWorld :: world where
  "demoWorld =
    \<lparr>tandems =
       [(plainTandem None ''sim'' ''sim'' [(''test'', 1)])\<lparr>tandemClass := RootTandem\<rparr>,
        plainTandem (Some 0) ''test'' ''sim.test''
          [(''a'', 2), (''b'', 3), (''c'', 4), (''d'', 5)],
        plainTandem (Some 1) ''a'' ''sim.test.a'' [],
        plainTandem (Some 1) ''b'' ''sim.test.b'' [],
        plainTandem (Some 1) ''c'' ''sim.test.c'' [],
        plainTandem (Some 1) ''d'' ''sim.test.d'' []],
     objects = [staticObject 2, staticObject 3, staticObject 4, staticObject 5],
     launched = False, bufferedPhetioObjects = [], phetioObjectListeners = [7],
     notifications = []\<rparr>"

definition phetioBrand :: config where
  "phetioBrand = \<lparr>PHET_IO_ENABLED = True, VALIDATION = True, isSettingPhetioState = False\<rparr>"

section \<open>PhetioObject\<close>

text \<open>
  The options a dynamic element's factory gives the \<^verbatim>\<open>PhetioObject\<close> constructor beside the
  Tandem (after the overrides of \<^verbatim>\<open>phetioElementsOverrides\<close>, if any, have been merged in).
\<close>

record elementOptions =
  optPhetioType :: string
  optPhetioDynamicElement :: bool

text \<open>
  \<^verbatim>\<open>new PhetioObject( options )\<close> with a Tandem in the options, that is
  \<^verbatim>\<open>initializePhetioObject\<close>: a required Tandem must be supplied (under validation); without
  PhET-iO or without a supplied Tandem the object only keeps the Tandem and stays
  uninitialized; otherwise it takes its fields from the options, registers itself with
  \<^verbatim>\<open>this.tandem.addPhetioObject( this )\<close> and becomes initialized. The object is appended to the
  store; the result is its address. The log of missing Tandems (\<^verbatim>\<open>Tandem.onMissingTandem\<close>)
  and the baseline metadata are not part of the model.
\<close>

definition newPhetioObject ::
    "config \<Rightarrow> nat \<Rightarrow> elementOptions \<Rightarrow> world \<Rightarrow> error + (nat \<times> world)" where
  "newPhetioObject cfg configTandem options w =
    bindE (getTandem w configTandem) (\<lambda>t.
    bindE (assertE (VALIDATION cfg \<and> required t \<longrightarrow> supplied t)) (\<lambda>u.
    let ob = length (objects w);
        this = \<lparr>tandem = configTandem, phetioType = optPhetioType options,
                phetioDynamicElement = optPhetioDynamicElement options,
                phetioObjectInitialized = False, isDisposed = False\<rparr>;
        w1 = w\<lparr>objects := objects w @ [this]\<rparr>
    in
    if \<not> (PHET_IO_ENABLED cfg \<and> supplied t) then Inr (ob, w1)
    else
      bindE (addPhetioObject cfg configTandem ob w1) (\<lambda>w2.
      Inr (ob, w2\<lparr>objects := (objects w2)[ob := this\<lparr>phetioObjectInitialized := True\<rparr>]\<rparr>))))"

text \<open>
  The getters \<^verbatim>\<open>phetioType\<close> and \<^verbatim>\<open>phetioDynamicElement\<close>: they assert
  \<^verbatim>\<open>PHET_IO_ENABLED && this.isPhetioInstrumented()\<close>.
\<close>

definition get_phetioType :: "config \<Rightarrow> world \<Rightarrow> nat \<Rightarrow> error + string" where
  "get_phetioType cfg w ob =
    bindE (isPhetioInstrumented w ob) (\<lambda>instrumented.
    bindE (assertE (PHET_IO_ENABLED cfg \<and> instrumented)) (\<lambda>u.
    bindE (getObject w ob) (\<lambda>phetioObject. Inr (phetioType phetioObject))))"

definition get_phetioDynamicElement :: "config \<Rightarrow> world \<Rightarrow> nat \<Rightarrow> error + bool" where
  "get_phetioDynamicElement cfg w ob =
    bindE (isPhetioInstrumented w ob) (\<lambda>instrumented.
    bindE (assertE (PHET_IO_ENABLED cfg \<and> instrumented)) (\<lambda>u.
    bindE (getObject w ob) (\<lambda>phetioObject. Inr (phetioDynamicElement phetioObject))))"

text \<open>
  \<^verbatim>\<open>PhetioObject.dispose\<close>, inside the wrapper the constructor puts around it (which asserts
  that the object is not disposed before, and is disposed after). The object has no linked
  elements; the checks \<^verbatim>\<open>dispose\<close> defers to the next animation frame are not part of the
  model.
\<close>

definition PhetioObject_dispose :: "config \<Rightarrow> nat \<Rightarrow> world \<Rightarrow> error + world" where
  "PhetioObject_dispose cfg ob w =
    bindE (getObject w ob) (\<lambda>this.
    bindE (assertE (\<not> isDisposed this)) (\<lambda>u.
    bindE (if phetioObjectInitialized this then removePhetioObject cfg (tandem this) ob w
           else Inr w) (\<lambda>w1.
    bindE (getObject w1 ob) (\<lambda>this1.
    Inr (w1\<lparr>objects := (objects w1)[ob := this1\<lparr>isDisposed := True\<rparr>]\<rparr>)))))"

section \<open>Dynamic element containers\<close>

text \<open>
  Modelled from the spec: axon's \<^verbatim>\<open>Emitter\<close> is not in the sources. \<^verbatim>\<open>emit\<close> calls the listeners
  at once, before it returns. The model records what the two emitters of a container have
  emitted, in order.
\<close>

datatype emission = ElementCreated nat | ElementDisposed nat

text \<open>
  A \<^verbatim>\<open>PhetioDynamicElementContainer\<close> is a PhetioObject with: \<^verbatim>\<open>this.phetioType.parameterTypes\<close>
  (IO Types by name) and the validator of the first of them; \<^verbatim>\<open>supportsDynamicState\<close>;
  \<^verbatim>\<open>phetioDynamicElementName\<close>; \<^verbatim>\<open>createElement\<close>, the client's factory, as the function from
  the arguments to the options of the PhetioObject it constructs on the Tandem it is given;
  \<^verbatim>\<open>notificationsDeferred\<close> and the two queues; and the emissions so far. A \<^verbatim>\<open>PhetioGroup\<close> adds
  \<^verbatim>\<open>_array\<close>, \<^verbatim>\<open>groupElementIndex\<close> and the value of \<^verbatim>\<open>countProperty\<close>; a \<^verbatim>\<open>PhetioCapsule\<close> adds
  \<^verbatim>\<open>element\<close>.

  A listener of the two emitters of a group runs inside \<^verbatim>\<open>emit\<close> and can read the group there.
  \<open>listenerReads\<close> is the log of a listener on both emitters that reads \<^verbatim>\<open>count\<close> and
  \<^verbatim>\<open>getArrayCopy()\<close> each time it is called: one pair for every emission, in order.
\<close>

record container = phetioObject +
  parameterTypes :: "string list"
  elementValidator :: "phetioObject \<Rightarrow> bool"
  supportsDynamicState :: bool
  phetioDynamicElementName :: string
  createElement :: "jsval list \<Rightarrow> elementOptions"
  notificationsDeferred :: bool
  deferredCreations :: "nat list"
  deferredDisposals :: "nat list"
  emitted :: "emission list"

record group = container +
  array :: "nat list"
  groupElementIndex :: nat
  countProperty :: nat
  listenerReads :: "(nat \<times> nat list) list"

record capsule = container +
  element :: "nat option"

text \<open>
  \<^verbatim>\<open>this.isPhetioInstrumented()\<close> of the container, and
  \<^verbatim>\<open>Tandem.PHET_IO_ENABLED ? this.phetioType.parameterTypes[ 0 ] : null\<close> (the getter
  \<^verbatim>\<open>phetioType\<close> asserts that the container is instrumented).
\<close>

definition containerInstrumented :: "world \<Rightarrow> 'a container_scheme \<Rightarrow> error + bool" where
  "containerInstrumented w g = bindE (getTandem w (tandem g)) (\<lambda>t. Inr (supplied t))"

definition containerParameterType ::
    "config \<Rightarrow> world \<Rightarrow> 'a container_scheme \<Rightarrow> error + string option" where
  "containerParameterType cfg w g =
    (if PHET_IO_ENABLED cfg then
       bindE (containerInstrumented w g) (\<lambda>instrumented.
       bindE (assertE instrumented) (\<lambda>u.
       Inr (case parameterTypes g of [] \<Rightarrow> None | ty # rest \<Rightarrow> Some ty)))
     else Inr None)"

text \<open>\<^verbatim>\<open>assertDynamicPhetioObject\<close> and \<^verbatim>\<open>createDynamicElement\<close>.\<close>

definition assertDynamicPhetioObject :: "config \<Rightarrow> world \<Rightarrow> nat \<Rightarrow> error + unit" where
  "assertDynamicPhetioObject cfg w ob =
    (if PHET_IO_ENABLED cfg \<and> VALIDATION cfg then
       bindE (isPhetioInstrumented w ob) (\<lambda>instrumented.
       bindE (assertE instrumented) (\<lambda>u.
       bindE (get_phetioDynamicElement cfg w ob) (\<lambda>dynamic. assertE dynamic)))
     else Inr ())"

definition createDynamicElement ::
    "config \<Rightarrow> 'a container_scheme \<Rightarrow> string \<Rightarrow> jsval list \<Rightarrow> string option \<Rightarrow> world
      \<Rightarrow> error + (nat \<times> world)" where
  "createDynamicElement cfg g componentName argsForCreateFunction parameterType w =
    bindE (getTandem w (tandem g)) (\<lambda>t.
    bindE (hasChild t componentName) (\<lambda>has.
    bindE (if \<not> has then
             newTandem DynamicTandem (Some (tandem g)) componentName
               (getExtendedOptions t noOptions) w
           else
             bindE (createTandem cfg (tandem g) componentName (getExtendedOptions t noOptions) w)
               (\<lambda>r.
             bindE (getTandem (snd r) (fst r)) (\<lambda>createdObjectTandem.
             bindE (assertE (tandemClass createdObjectTandem = DynamicTandem)) (\<lambda>u. Inr r))))
      (\<lambda>r.
    bindE (newPhetioObject cfg (fst r) (createElement g argsForCreateFunction) (snd r)) (\<lambda>r2.
    let createdObject = fst r2; w2 = snd r2 in
    bindE (if PHET_IO_ENABLED cfg then
             (case parameterType of
                None \<Rightarrow> Inl AssertionError
              | Some ty \<Rightarrow>
                 bindE (getObject w2 createdObject) (\<lambda>phetioObject.
                 bindE (assertE (elementValidator g phetioObject)) (\<lambda>u.
                 bindE (get_phetioType cfg w2 createdObject) (\<lambda>createdType.
                 assertE (createdType = ty)))))
           else Inr ()) (\<lambda>u.
    bindE (assertDynamicPhetioObject cfg w2 createdObject) (\<lambda>u.
    Inr (createdObject, w2)))))))"

text \<open>
  \<^verbatim>\<open>PhetioDynamicElementContainer.disposeElement\<close>, \<^verbatim>\<open>notifyElementCreated\<close>,
  \<^verbatim>\<open>notifyElementCreatedWhileDeferred\<close> and \<^verbatim>\<open>notifyElementDisposedWhileDeferred\<close>.
\<close>

definition PhetioDynamicElementContainer_disposeElement ::
    "config \<Rightarrow> 'a container_scheme \<Rightarrow> nat \<Rightarrow> bool \<Rightarrow> world
      \<Rightarrow> error + ('a container_scheme \<times> world)" where
  "PhetioDynamicElementContainer_disposeElement cfg g el fromStateSetting w =
    bindE (PhetioObject_dispose cfg el w) (\<lambda>w1.
    bindE (assertE (supportsDynamicState g \<and> isSettingPhetioState cfg \<longrightarrow> fromStateSetting))
      (\<lambda>u.
    if notificationsDeferred g then
      Inr (g\<lparr>deferredDisposals := deferredDisposals g @ [el]\<rparr>, w1)
    else Inr (g\<lparr>emitted := emitted g @ [ElementDisposed el]\<rparr>, w1)))"

definition notifyElementCreated :: "'a container_scheme \<Rightarrow> nat \<Rightarrow> 'a container_scheme" where
  "notifyElementCreated g createdElement =
    (if notificationsDeferred g then
       g\<lparr>deferredCreations := deferredCreations g @ [createdElement]\<rparr>
     else g\<lparr>emitted := emitted g @ [ElementCreated createdElement]\<rparr>)"

definition notifyElementCreatedWhileDeferred ::
    "'a container_scheme \<Rightarrow> nat \<Rightarrow> error + 'a container_scheme" where
  "notifyElementCreatedWhileDeferred g createdElement =
    bindE (assertE (notificationsDeferred g)) (\<lambda>u.
    bindE (assertE (createdElement \<in> set (deferredCreations g))) (\<lambda>u.
    bindE (arrayRemove (deferredCreations g) createdElement) (\<lambda>rest.
    Inr (g\<lparr>emitted := emitted g @ [ElementCreated createdElement],
            deferredCreations := rest\<rparr>))))"

definition notifyElementDisposedWhileDeferred ::
    "'a container_scheme \<Rightarrow> nat \<Rightarrow> error + 'a container_scheme" where
  "notifyElementDisposedWhileDeferred g disposedElement =
    bindE (assertE (notificationsDeferred g)) (\<lambda>u.
    bindE (assertE (disposedElement \<in> set (deferredDisposals g))) (\<lambda>u.
    bindE (arrayRemove (deferredDisposals g) disposedElement) (\<lambda>rest.
    Inr (g\<lparr>emitted := emitted g @ [ElementDisposed disposedElement],
            deferredDisposals := rest\<rparr>))))"

text \<open>
  \<^verbatim>\<open>setNotificationsDeferred\<close>, with its two loops
  \<^verbatim>\<open>while ( this.deferredCreations.length > 0 )\<close> and
  \<^verbatim>\<open>while ( this.deferredDisposals.length > 0 )\<close>, each notifying the first queued element.
\<close>

function flushCreations :: "'a container_scheme \<Rightarrow> error + 'a container_scheme" where
  "flushCreations g =
    (case deferredCreations g of
       [] \<Rightarrow> Inr g
     | createdElement # rest \<Rightarrow>
        (case notifyElementCreatedWhileDeferred g createdElement of
           Inl e \<Rightarrow> Inl e
         | Inr g1 \<Rightarrow> flushCreations g1))"
  by pat_completeness auto
termination
  by (relation "measure (\<lambda>g. length (deferredCreations g))")
     (auto simp: notifyElementCreatedWhileDeferred_def arrayRemove_def bindE_def assertE_def
        split: if_splits)

declare flushCreations.simps [simp del]

function flushDisposals :: "'a container_scheme \<Rightarrow> error + 'a container_scheme" where
  "flushDisposals g =
    (case deferredDisposals g of
       [] \<Rightarrow> Inr g
     | disposedElement # rest \<Rightarrow>
        (case notifyElementDisposedWhileDeferred g disposedElement of
           Inl e \<Rightarrow> Inl e
         | Inr g1 \<Rightarrow> flushDisposals g1))"
  by pat_completeness auto
termination
  by (relation "measure (\<lambda>g. length (deferredDisposals g))")
     (auto simp: notifyElementDisposedWhileDeferred_def arrayRemove_def bindE_def assertE_def
        split: if_splits)

declare flushDisposals.simps [simp del]

definition setNotificationsDeferred ::
    "'a container_scheme \<Rightarrow> bool \<Rightarrow> error + 'a container_scheme" where
  "setNotificationsDeferred g deferred =
    bindE (assertE (deferred \<noteq> notificationsDeferred g)) (\<lambda>u.
    bindE (if \<not> deferred then bindE (flushCreations g) flushDisposals else Inr g) (\<lambda>g1.
    bindE (assertE (deferredCreations g1 = [])) (\<lambda>u.
    bindE (assertE (deferredDisposals g1 = [])) (\<lambda>u.
    Inr (g1\<lparr>notificationsDeferred := deferred\<rparr>)))))"

section \<open>PhetioGroup\<close>

text \<open>
  Modelled from the spec: axon's \<^verbatim>\<open>NumberProperty\<close> is not in the sources. Assigning
  \<^verbatim>\<open>countProperty.value\<close> stores the number and, when it changed, calls the listeners; the one
  listener the constructor of \<^verbatim>\<open>PhetioGroup\<close> links asserts
  \<^verbatim>\<open>count === this._array.length\<close>.
\<close>

definition setCountProperty :: "'a group_scheme \<Rightarrow> nat \<Rightarrow> error + 'a group_scheme" where
  "setCountProperty g v =
    bindE (assertE (v \<noteq> countProperty g \<longrightarrow> v = length (array g))) (\<lambda>u.
    Inr (g\<lparr>countProperty := v\<rparr>))"

text \<open>
  What the listener reads during a call of a method that \<^verbatim>\<open>PhetioGroup\<close> inherits from
  \<^verbatim>\<open>PhetioDynamicElementContainer\<close>. These methods do not assign \<^verbatim>\<open>_array\<close> or
  \<^verbatim>\<open>countProperty\<close>, so at every emission they make the listener finds the two as they are
  when the method is called, in the group \<open>before\<close>; \<open>after\<close> is the group the method leaves.
\<close>

definition listenersRead :: "'a group_scheme \<Rightarrow> 'a group_scheme \<Rightarrow> 'a group_scheme" where
  "listenersRead before after =
    after\<lparr>listenerReads :=
            listenerReads after @
            replicate (length (emitted after) - length (emitted before))
              (countProperty before, array before)\<rparr>"

text \<open>
  \<^verbatim>\<open>PhetioGroup.createIndexedElement\<close>; the component name is
  \<^verbatim>\<open>this.phetioDynamicElementName + GROUP_SEPARATOR + index\<close>.
\<close>

definition groupComponentName :: "'a container_scheme \<Rightarrow> nat \<Rightarrow> string" where
  "groupComponentName g index = phetioDynamicElementName g @ GROUP_SEPARATOR @ dec index"

definition createIndexedElement ::
    "config \<Rightarrow> 'a group_scheme \<Rightarrow> nat \<Rightarrow> jsval list \<Rightarrow> bool \<Rightarrow> world
      \<Rightarrow> error + (nat \<times> 'a group_scheme \<times> world)" where
  "createIndexedElement cfg g index argsForCreateFunction fromStateSetting w =
    bindE (if VALIDATION cfg then bindE (containerInstrumented w g) assertE else Inr ()) (\<lambda>u.
    bindE (assertE (supportsDynamicState g \<and> isSettingPhetioState cfg \<longrightarrow> fromStateSetting))
      (\<lambda>u.
    bindE (containerParameterType cfg w g) (\<lambda>parameterType.
    bindE (createDynamicElement cfg g (groupComponentName g index) argsForCreateFunction
             parameterType w) (\<lambda>r.
    let groupElement = fst r; w1 = snd r;
        g1 = g\<lparr>array := array g @ [groupElement]\<rparr>
    in
    bindE (setCountProperty g1 (length (array g1))) (\<lambda>g2.
    Inr (groupElement, listenersRead g2 (notifyElementCreated g2 groupElement), w1))))))"

text \<open>
  \<^verbatim>\<open>createNextElement\<close> (\<^verbatim>\<open>this.groupElementIndex++\<close> is evaluated before the call) and
  \<^verbatim>\<open>createCorrespondingGroupElement\<close>, which takes the index
  \<^verbatim>\<open>PhetioIDUtils.getGroupElementIndex\<close> (not in the sources) reads off the tandem name.
\<close>

definition createNextElement ::
    "config \<Rightarrow> 'a group_scheme \<Rightarrow> jsval list \<Rightarrow> world
      \<Rightarrow> error + (nat \<times> 'a group_scheme \<times> world)" where
  "createNextElement cfg g argsForCreateFunction w =
    createIndexedElement cfg (g\<lparr>groupElementIndex := groupElementIndex g + 1\<rparr>)
      (groupElementIndex g) argsForCreateFunction False w"

definition createCorrespondingGroupElement ::
    "config \<Rightarrow> 'a group_scheme \<Rightarrow> nat \<Rightarrow> jsval list \<Rightarrow> world
      \<Rightarrow> error + (nat \<times> 'a group_scheme \<times> world)" where
  "createCorrespondingGroupElement cfg g index argsForCreateFunction w =
    createIndexedElement cfg
      (if groupElementIndex g = index then g\<lparr>groupElementIndex := groupElementIndex g + 1\<rparr>
       else g)
      index argsForCreateFunction False w"

text \<open>\<^verbatim>\<open>PhetioGroup.disposeElement\<close> and \<^verbatim>\<open>PhetioGroup.clear\<close>.\<close>

definition PhetioGroup_disposeElement ::
    "config \<Rightarrow> 'a group_scheme \<Rightarrow> nat \<Rightarrow> bool \<Rightarrow> world \<Rightarrow> error + ('a group_scheme \<times> world)" where
  "PhetioGroup_disposeElement cfg g el fromStateSetting w =
    bindE (getObject w el) (\<lambda>phetioObject.
    bindE (assertE (\<not> isDisposed phetioObject)) (\<lambda>u.
    bindE (arrayRemove (array g) el) (\<lambda>rest.
    bindE (setCountProperty (g\<lparr>array := rest\<rparr>) (length rest)) (\<lambda>g1.
    bindE (PhetioDynamicElementContainer_disposeElement cfg g1 el fromStateSetting w) (\<lambda>r.
    Inr (listenersRead g1 (fst r), snd r))))))"

function clearLoop ::
    "config \<Rightarrow> 'a group_scheme \<Rightarrow> bool \<Rightarrow> world \<Rightarrow> error + ('a group_scheme \<times> world)" where
  "clearLoop cfg g fromStateSetting w =
    (case array g of
       [] \<Rightarrow> Inr (g, w)
     | el # rest \<Rightarrow>
        (case PhetioGroup_disposeElement cfg g el fromStateSetting w of
           Inl e \<Rightarrow> Inl e
         | Inr r \<Rightarrow> clearLoop cfg (fst r) fromStateSetting (snd r)))"
  by pat_completeness auto
termination
  by (relation "measure (\<lambda>(cfg, g, fromStateSetting, w). length (array g))")
     (auto simp: PhetioGroup_disposeElement_def PhetioDynamicElementContainer_disposeElement_def
        setCountProperty_def arrayRemove_def listenersRead_def bindE_def assertE_def
        split: if_splits sum.splits)

declare clearLoop.simps [simp del]

definition PhetioGroup_clear ::
    "config \<Rightarrow> 'a group_scheme \<Rightarrow> bool \<Rightarrow> bool \<Rightarrow> world \<Rightarrow> error + ('a group_scheme \<times> world)" where
  "PhetioGroup_clear cfg g fromStateSetting resetIndex w =
    bindE (clearLoop cfg g fromStateSetting w) (\<lambda>r.
    Inr (if resetIndex then (fst r)\<lparr>groupElementIndex := 0\<rparr> else fst r, snd r))"

text \<open>
  A \<^verbatim>\<open>PhetioGroup\<close> as its constructor leaves it, for a Tandem, an element type and a
  factory.
\<close>

definition newGroup ::
    "nat \<Rightarrow> string \<Rightarrow> string \<Rightarrow> (phetioObject \<Rightarrow> bool) \<Rightarrow> (jsval list \<Rightarrow> elementOptions) \<Rightarrow> group" where
  "newGroup groupTandem elementName elementType accepts factory =
    \<lparr>tandem = groupTandem, phetioType = ''PhetioGroupIO<'' @ elementType @ ''>'',
     phetioDynamicElement = False, phetioObjectInitialized = True, isDisposed = False,
     parameterTypes = [elementType], elementValidator = accepts,
     supportsDynamicState = True, phetioDynamicElementName = elementName,
     createElement = factory, notificationsDeferred = False, deferredCreations = [],
     deferredDisposals = [], emitted = [],
     array = [], groupElementIndex = 0, countProperty = 0, listenerReads = []\<rparr>"

text \<open>
  The calls a client makes on a group, and a run of them: it stops at the first call that
  throws.
\<close>

datatype groupCall =
    CreateNextElement "jsval list"
  | CreateCorrespondingGroupElement nat "jsval list"
  | CreateIndexedElement nat "jsval list" bool
  | DisposeElement nat bool
  | Clear bool bool
  | SetNotificationsDeferred bool
  | NotifyElementCreatedWhileDeferred nat

definition groupStep ::
    "config \<Rightarrow> groupCall \<Rightarrow> 'a group_scheme \<Rightarrow> world \<Rightarrow> error + ('a group_scheme \<times> world)" where
  "groupStep cfg call g w =
    (case call of
       CreateNextElement args \<Rightarrow>
         bindE (createNextElement cfg g args w) (\<lambda>r. Inr (snd r))
     | CreateCorrespondingGroupElement index args \<Rightarrow>
         bindE (createCorrespondingGroupElement cfg g index args w) (\<lambda>r. Inr (snd r))
     | CreateIndexedElement index args fromStateSetting \<Rightarrow>
         bindE (createIndexedElement cfg g index args fromStateSetting w) (\<lambda>r. Inr (snd r))
     | DisposeElement el fromStateSetting \<Rightarrow>
         PhetioGroup_disposeElement cfg g el fromStateSetting w
     | Clear fromStateSetting resetIndex \<Rightarrow>
         PhetioGroup_clear cfg g fromStateSetting resetIndex w
     | SetNotificationsDeferred deferred \<Rightarrow>
         bindE (setNotificationsDeferred g deferred) (\<lambda>g1. Inr (listenersRead g g1, w))
     | NotifyElementCreatedWhileDeferred el \<Rightarrow>
         bindE (notifyElementCreatedWhileDeferred g el) (\<lambda>g1. Inr (listenersRead g g1, w)))"

fun groupRun ::
    "config \<Rightarrow> groupCall list \<Rightarrow> 'a group_scheme \<Rightarrow> world \<Rightarrow> error + ('a group_scheme \<times> world)" where
  "groupRun cfg [] g w = Inr (g, w)"
| "groupRun cfg (call # calls) g w =
    (case groupStep cfg call g w of
       Inl e \<Rightarrow> Inl e
     | Inr r \<Rightarrow> groupRun cfg calls (fst r) (snd r))"

text \<open>The name of the Tandem of the PhetioObject at address \<open>ob\<close>.\<close>

definition tandemNameOf :: "world \<Rightarrow> nat \<Rightarrow> string" where
  "tandemNameOf w ob = name (tandems w ! tandem (objects w ! ob))"

text \<open>Every call of the listener so far has found \<^verbatim>\<open>count\<close> to be the length of the array.\<close>

definition readsConsistent :: "'a group_scheme \<Rightarrow> bool" where
  "readsConsistent g = list_all (\<lambda>r. fst r = length (snd r)) (listenerReads g)"

section \<open>PhetioCapsule\<close>

text \<open>
  \<^verbatim>\<open>PhetioCapsule.create\<close>, \<^verbatim>\<open>getElement\<close>, \<^verbatim>\<open>disposeElement\<close> and \<^verbatim>\<open>clear\<close>. In \<^verbatim>\<open>create\<close>, the
  assertion about setting state is guarded by \<^verbatim>\<open>_.hasIn( window, 'phet.joist.sim.' )\<close>: the
  path ends in a dot, so it asks for a property named by the empty string, which
  \<^verbatim>\<open>phet.joist.sim\<close> does not have, and the assertion does not run.
\<close>

definition PhetioCapsule_create ::
    "config \<Rightarrow> 'a capsule_scheme \<Rightarrow> jsval list \<Rightarrow> bool \<Rightarrow> world
      \<Rightarrow> error + (nat \<times> 'a capsule_scheme \<times> world)" where
  "PhetioCapsule_create cfg g argsForCreateFunction fromStateSetting w =
    bindE (bindE (containerInstrumented w g) assertE) (\<lambda>u.
    bindE (containerParameterType cfg w g) (\<lambda>parameterType.
    bindE (createDynamicElement cfg g (phetioDynamicElementName g) argsForCreateFunction
             parameterType w) (\<lambda>r.
    let g1 = g\<lparr>element := Some (fst r)\<rparr> in
    Inr (fst r, notifyElementCreated g1 (fst r), snd r))))"

definition PhetioCapsule_getElement ::
    "config \<Rightarrow> 'a capsule_scheme \<Rightarrow> jsval list \<Rightarrow> world
      \<Rightarrow> error + (nat \<times> 'a capsule_scheme \<times> world)" where
  "PhetioCapsule_getElement cfg g argsForCreateFunction w =
    (case element g of
       None \<Rightarrow> PhetioCapsule_create cfg g argsForCreateFunction False w
     | Some el \<Rightarrow> Inr (el, g, w))"

definition PhetioCapsule_disposeElement ::
    "config \<Rightarrow> 'a capsule_scheme \<Rightarrow> bool \<Rightarrow> world \<Rightarrow> error + ('a capsule_scheme \<times> world)" where
  "PhetioCapsule_disposeElement cfg g fromStateSetting w =
    (case element g of
       None \<Rightarrow> Inl AssertionError
     | Some el \<Rightarrow>
        bindE (PhetioDynamicElementContainer_disposeElement cfg g el fromStateSetting w) (\<lambda>r.
        Inr ((fst r)\<lparr>element := None\<rparr>, snd r)))"

definition PhetioCapsule_clear ::
    "config \<Rightarrow> 'a capsule_scheme \<Rightarrow> bool \<Rightarrow> world \<Rightarrow> error + ('a capsule_scheme \<times> world)" where
  "PhetioCapsule_clear cfg g fromStateSetting w =
    (case element g of
       None \<Rightarrow> Inr (g, w)
     | Some el \<Rightarrow> PhetioCapsule_disposeElement cfg g fromStateSetting w)"

text \<open>A \<^verbatim>\<open>PhetioCapsule\<close> as its constructor leaves it.\<close>

definition newCapsule ::
    "nat \<Rightarrow> string \<Rightarrow> string \<Rightarrow> (phetioObject \<Rightarrow> bool) \<Rightarrow> (jsval list \<Rightarrow> elementOptions) \<Rightarrow> capsule" where
  "newCapsule capsuleTandem elementName elementType accepts factory =
    \<lparr>tandem = capsuleTandem, phetioType = ''PhetioCapsuleIO<'' @ elementType @ ''>'',
     phetioDynamicElement = False, phetioObjectInitialized = True, isDisposed = False,
     parameterTypes = [elementType], elementValidator = accepts,
     supportsDynamicState = True, phetioDynamicElementName = elementName,
     createElement = factory, notificationsDeferred = False, deferredCreations = [],
     deferredDisposals = [], emitted = [],
     element = None\<rparr>"

text \<open>The calls a client makes on a capsule, and a run of them.\<close>

datatype capsuleCall =
    Create "jsval list" bool
  | GetElement "jsval list"
  | CapsuleClear bool
  | CapsuleDisposeElement bool

definition capsuleStep ::
    "config \<Rightarrow> capsuleCall \<Rightarrow> 'a capsule_scheme \<Rightarrow> world
      \<Rightarrow> error + ('a capsule_scheme \<times> world)" where
  "capsuleStep cfg call g w =
    (case call of
       Create args fromStateSetting \<Rightarrow>
         bindE (PhetioCapsule_create cfg g args fromStateSetting w) (\<lambda>r. Inr (snd r))
     | GetElement args \<Rightarrow>
         bindE (PhetioCapsule_getElement cfg g args w) (\<lambda>r. Inr (snd r))
     | CapsuleClear fromStateSetting \<Rightarrow> PhetioCapsule_clear cfg g fromStateSetting w
     | CapsuleDisposeElement fromStateSetting \<Rightarrow>
         PhetioCapsule_disposeElement cfg g fromStateSetting w)"

fun capsuleRun ::
    "config \<Rightarrow> capsuleCall list \<Rightarrow> 'a capsule_scheme \<Rightarrow> world
      \<Rightarrow> error + ('a capsule_scheme \<times> world)" where
  "capsuleRun cfg [] g w = Inr (g, w)"
| "capsuleRun cfg (call # calls) g w =
    (case capsuleStep cfg call g w of
       Inl e \<Rightarrow> Inl e
     | Inr r \<Rightarrow> capsuleRun cfg calls (fst r) (snd r))"

text \<open>
  The slot of a capsule holds no element, or one that is in the store and not disposed.
\<close>

definition slotLive :: "'a capsule_scheme \<Rightarrow> world \<Rightarrow> bool" where
  "slotLive g w =
    (case element g of
       None \<Rightarrow> True
     | Some el \<Rightarrow> el < length (objects w) \<and> \<not> isDisposed (objects w ! el))"

text \<open>
  A world with a group and a capsule to run: the Tandems \<^verbatim>\<open>sim\<close>, \<^verbatim>\<open>sim.test\<close>,
  \<^verbatim>\<open>sim.test.particleGroup\<close> (address 2) and \<^verbatim>\<open>sim.test.dialogCapsule\<close> (address 3), no
  PhetioObject yet, launched, with one listener; a group of \<^verbatim>\<open>ParticleIO\<close> elements and a
  capsule of \<^verbatim>\<open>DialogIO\<close> elements whose factories make dynamic elements of those types.
\<close>

definition containerWorld :: world where
  "containerWorld =
    \<lparr>tandems =
       [(plainTandem None ''sim'' ''sim'' [(''test'', 1)])\<lparr>tandemClass := RootTandem\<rparr>,
        plainTandem (Some 0) ''test'' ''sim.test''
          [(''particleGroup'', 2), (''dialogCapsule'', 3)],
        plainTandem (Some 1) ''particleGroup'' ''sim.test.particleGroup'' [],
        plainTandem (Some 1) ''dialogCapsule'' ''sim.test.dialogCapsule'' []],
     objects = [],
     launched = True, bufferedPhetioObjects = [], phetioObjectListeners = [7],
     notifications = []\<rparr>"

definition particleGroup :: group where
  "particleGroup =
    newGroup 2 ''particle'' ''ParticleIO'' (\<lambda>x. True)
      (\<lambda>args. \<lparr>optPhetioType = ''ParticleIO'', optPhetioDynamicElement = True\<rparr>)"

definition dialogCapsule :: capsule where
  "dialogCapsule =
    newCapsule 3 ''dialog'' ''DialogIO'' (\<lambda>x. True)
      (\<lambda>args. \<lparr>optPhetioType = ''DialogIO'', optPhetioDynamicElement = True\<rparr>)"


text \<open>
  The children of every Tandem are in the store under the name they are registered by.
\<close>

definition childrenNamed :: "world \<Rightarrow> bool" where
  "childrenNamed w =
    list_all
      (\<lambda>t. list_all (\<lambda>p. snd p < length (tandems w) \<and> name (tandems w ! snd p) = fst p)
             (children t))
      (tandems w)"

section \<open>phetioAPIValidation\<close>

text \<open>
  \<^verbatim>\<open>a === b\<close> on the values of the model. Two objects or arrays are strictly equal only when
  they are the same object; the values compared below are read from two different objects
  (the overrides and the baseline), and an object is never shared between them, so objects
  and arrays compare unequal. \<^verbatim>\<open>NaN\<close> is not equal to itself.
\<close>

definition strictEquals :: "jsval \<Rightarrow> jsval \<Rightarrow> bool" where
  "strictEquals a b =
    (case a of
       JUndefined \<Rightarrow> b = JUndefined
     | JNull \<Rightarrow> b = JNull
     | JBool x \<Rightarrow> b = JBool x
     | JNum x \<Rightarrow> x \<noteq> NaN \<and> b = JNum x
     | JStr x \<Rightarrow> b = JStr x
     | JArr xs \<Rightarrow> False
     | JObj kvs \<Rightarrow> False)"

text \<open>\<^verbatim>\<open>String.prototype.indexOf\<close>: the first position of the search string, or -1.\<close>

fun indexOfFrom :: "string \<Rightarrow> string \<Rightarrow> nat \<Rightarrow> int" where
  "indexOfFrom [] searchString i = (if searchString = [] then int i else - 1)"
| "indexOfFrom (c # rest) searchString i =
    (if take (length searchString) (c # rest) = searchString then int i
     else indexOfFrom rest searchString (i + 1))"

definition String_indexOf :: "string \<Rightarrow> string \<Rightarrow> int" where
  "String_indexOf s searchString = indexOfFrom s searchString 0"

definition DYNAMIC_ARCHETYPE_NAME :: string where
  "DYNAMIC_ARCHETYPE_NAME = ''archetype''"

text \<open>
  The object \<^verbatim>\<open>assertAPIError\<close> is given and prints with \<^verbatim>\<open>console.log\<close>. A call of the
  validation returns what it printed to the console and how it ended.
  \<^verbatim>\<open>validateOverridesFile\<close> is only called when \<^verbatim>\<open>this.enabled\<close>, which is
  \<^verbatim>\<open>assert && Tandem.VALIDATION\<close>: assertions are enabled, and \<^verbatim>\<open>assertAPIError\<close> throws after it
  has printed.
\<close>

datatype apiErrorObject =
  ApiErrorObject (errorPhetioID: string) (ruleInViolation: string) (message: string)

definition assertAPIError :: "apiErrorObject \<Rightarrow> apiErrorObject list \<times> (error + unit)" where
  "assertAPIError apiErrorObject = ([apiErrorObject], Inl AssertionError)"

text \<open>
  \<^verbatim>\<open>validateOverridesFile\<close>: the loop \<^verbatim>\<open>for ( const metadataKey in override )\<close>, the body of the
  loop \<^verbatim>\<open>for ( const phetioID in ...phetioElementsOverrides )\<close>, that loop, and the method. The
  baseline and the overrides are the objects the preloads hold; \<^verbatim>\<open>for...in\<close> enumerates the
  keys in the order of \<^verbatim>\<open>Object.keys\<close>. \<^verbatim>\<open>Object.keys\<close> of \<^verbatim>\<open>null\<close> or \<^verbatim>\<open>undefined\<close> is a
  TypeError.
\<close>

fun metadataLoop ::
    "string \<Rightarrow> jsval \<Rightarrow> jsval \<Rightarrow> string list \<Rightarrow> apiErrorObject list \<times> (error + unit)" where
  "metadataLoop pid override baseline [] = ([], Inr ())"
| "metadataLoop pid override baseline (metadataKey # rest) =
    (case hasOwnProperty baseline metadataKey of
       Inl e \<Rightarrow> ([], Inl e)
     | Inr inBaseline \<Rightarrow>
        if \<not> inBaseline then
          assertAPIError
            (ApiErrorObject pid
               ''8. Any schema entries in the overrides file must be different from its baseline counterpart.''
               (''phetioID metadata key not found in the baseline: '' @ metadataKey))
        else
          (case getProp override metadataKey of
             Inl e \<Rightarrow> ([], Inl e)
           | Inr overrideValue \<Rightarrow>
              (case getProp baseline metadataKey of
                 Inl e \<Rightarrow> ([], Inl e)
               | Inr baselineValue \<Rightarrow>
                  if strictEquals overrideValue baselineValue then
                    assertAPIError
                      (ApiErrorObject pid
                         ''8. Any schema entries in the overrides file must be different from its baseline counterpart.''
                         ''phetioID metadata override value is the same as the corresponding metadata value in the baseline.'')
                  else metadataLoop pid override baseline rest)))"

definition validateEntry ::
    "bool \<Rightarrow> jsval \<Rightarrow> jsval \<Rightarrow> string \<Rightarrow> apiErrorObject list \<times> (error + unit)" where
  "validateEntry createArchetypes entireBaseline phetioElementsOverrides pid =
    (let isArchetype = String_indexOf pid DYNAMIC_ARCHETYPE_NAME \<ge> 0 in
     case hasOwnProperty entireBaseline pid of
       Inl e \<Rightarrow> ([], Inl e)
     | Inr inBaseline \<Rightarrow>
        if \<not> createArchetypes \<and> \<not> inBaseline then ([], assertE isArchetype)
        else if \<not> inBaseline then
          assertAPIError
            (ApiErrorObject pid
               ''3. Any schema entries in the overrides file must exist in the baseline file.''
               ''phetioID expected in the baseline file but does not exist'')
        else
          (case getProp phetioElementsOverrides pid of
             Inl e \<Rightarrow> ([], Inl e)
           | Inr override \<Rightarrow>
              (case getProp entireBaseline pid of
                 Inl e \<Rightarrow> ([], Inl e)
               | Inr baseline \<Rightarrow>
                  if override = JUndefined \<or> override = JNull then ([], Inl TypeError)
                  else if length (Object_keys override) = 0 then
                    assertAPIError
                      (ApiErrorObject pid
                         ''4. Any schema entries in the overrides file must be different from its baseline counterpart.''
                         ''no metadata keys found for this override.'')
                  else metadataLoop pid override baseline (Object_keys override))))"

fun validateLoop ::
    "bool \<Rightarrow> jsval \<Rightarrow> jsval \<Rightarrow> string list \<Rightarrow> apiErrorObject list \<times> (error + unit)" where
  "validateLoop createArchetypes entireBaseline phetioElementsOverrides [] = ([], Inr ())"
| "validateLoop createArchetypes entireBaseline phetioElementsOverrides (pid # rest) =
    (case validateEntry createArchetypes entireBaseline phetioElementsOverrides pid of
       (console, Inl e) \<Rightarrow> (console, Inl e)
     | (console, Inr u) \<Rightarrow>
        (case validateLoop createArchetypes entireBaseline phetioElementsOverrides rest of
           (console1, r) \<Rightarrow> (console @ console1, r)))"

definition validateOverridesFile ::
    "bool \<Rightarrow> jsval \<Rightarrow> jsval \<Rightarrow> apiErrorObject list \<times> (error + unit)" where
  "validateOverridesFile createArchetypes entireBaseline phetioElementsOverrides =
    validateLoop createArchetypes entireBaseline phetioElementsOverrides
      (Object_keys phetioElementsOverrides)"

text \<open>
  The value \<^verbatim>\<open>o[ k ]\<close> of an object given by its properties, and what the claim calls a
  violation in a metadata key of an override: the baseline counterpart does not have the key,
  or has it with a strictly equal value.
\<close>

definition propertyOf :: "(string \<times> jsval) list \<Rightarrow> string \<Rightarrow> jsval" where
  "propertyOf kvs k = (case map_of kvs k of Some x \<Rightarrow> x | None \<Rightarrow> JUndefined)"

definition metadataKeyViolation ::
    "(string \<times> jsval) list \<Rightarrow> (string \<times> jsval) list \<Rightarrow> string \<Rightarrow> bool" where
  "metadataKeyViolation override baseline metadataKey =
    (metadataKey \<notin> set (map fst baseline) \<or>
     strictEquals (propertyOf override metadataKey) (propertyOf baseline metadataKey))"

text \<open>
  A baseline with one element and four overrides files: two for an archetype that the
  baseline does not have (one with a metadata key, one with none), one that repeats a value
  of the baseline, one that changes it.
\<close>

definition demoBaseline :: jsval where
  "demoBaseline =
    JObj [(''sim.screen.model.massProperty'',
           JObj [(''phetioState'', JBool True), (''phetioReadOnly'', JBool False)])]"

definition archetypeOverrides :: jsval where
  "archetypeOverrides =
    JObj [(''sim.screen.model.particleGroup.archetype'', JObj [(''phetioState'', JBool False)])]"

definition emptyArchetypeOverrides :: jsval where
  "emptyArchetypeOverrides = JObj [(''sim.screen.model.particleGroup.archetype'', JObj [])]"

definition staleOverrides :: jsval where
  "staleOverrides =
    JObj [(''sim.screen.model.massProperty'', JObj [(''phetioState'', JBool True)])]"

definition goodOverrides :: jsval where
  "goodOverrides =
    JObj [(''sim.screen.model.massProperty'', JObj [(''phetioState'', JBool False)])]"

chapter \<open>Properties\<close>

section \<open>State object validation\<close>

lemma checkKeys_eq:
  "checkKeys keys ta xs valid =
    (if ta \<and> \<not> list_all (\<lambda>key. key \<in> set keys) xs then Inl AssertionError
     else Inr (valid \<and> list_all (\<lambda>key. key \<in> set keys) xs))"
  by (induction xs arbitrary: valid) (auto simp: Let_def)

lemma rootCheck_True:
  "rootCheck obj ta pub priv = Inr True \<longleftrightarrow>
     list_all (\<lambda>key. key \<in> set pub) (filter (\<lambda>key. key \<noteq> ''_private'') (Object_keys obj)) \<and>
     (case getProp obj ''_private'' of Inl e \<Rightarrow> False
      | Inr p \<Rightarrow> (if truthy p then list_all (\<lambda>key. key \<in> set priv) (Object_keys p) else True))"
  by (auto simp: rootCheck_def checkKeys_eq split: sum.splits)

lemma checkLevel_None:
  "checkLevel ps obj ta ks valid = Inr (None, ks') \<longleftrightarrow>
     valid = None \<and> levelValid ps obj \<and> ks' = ks @ map fst ps"
proof (induction ps arbitrary: ks valid ta)
  case Nil
  show ?case by (auto simp: levelValid_def)
next
  case (Cons p ps)
  obtain key t where p: "p = (key, t)" by (cases p)
  have IH: "\<And>ks valid ta. checkLevel ps obj ta ks valid = Inr (None, ks') \<longleftrightarrow>
     valid = None \<and> levelValid ps obj \<and> ks' = ks @ map fst ps"
    by (rule Cons.IH)
  show ?case
  proof (cases "hasOwnProperty obj key")
    case (Inl e)
    then show ?thesis by (simp add: p levelValid_def)
  next
    case (Inr validKey)
    note h = this
    show ?thesis
    proof (cases "getProp obj key")
      case (Inl e)
      then show ?thesis using h by (simp add: p levelValid_def)
    next
      case (Inr x)
      note g = this
      show ?thesis
      proof (cases "validateStateObject t x")
        case (Inl e)
        then show ?thesis using h g by (simp add: p levelValid_def del: validateStateObject.simps)
      next
        case (Inr u)
        then show ?thesis using h g
          by (cases validKey) (auto simp: p IH levelValid_def simp del: validateStateObject.simps)
      qed
    qed
  qed
qed

lemma checkLevel_not_Some_True:
  "valid \<noteq> Some True \<Longrightarrow> checkLevel ps obj ta ks valid \<noteq> Inr (Some True, ks')"
proof (induction ps arbitrary: ks valid ta)
  case Nil
  then show ?case by simp
next
  case (Cons p ps)
  obtain key t where p: "p = (key, t)" by (cases p)
  have IH: "\<And>ks valid ta. valid \<noteq> Some True \<Longrightarrow> checkLevel ps obj ta ks valid \<noteq> Inr (Some True, ks')"
    by (rule Cons.IH)
  show ?case
    unfolding p using Cons.prems
    by (cases "hasOwnProperty obj key"; cases "getProp obj key")
       (auto simp: IH simp del: validateStateObject.simps split: sum.splits)
qed

lemma checkLevel_keys:
  "checkLevel ps obj ta ks valid = Inr (valid', ks') \<Longrightarrow> ks' = ks @ map fst ps"
proof (induction ps arbitrary: ks valid ta)
  case Nil
  then show ?case by simp
next
  case (Cons p ps)
  obtain key t where p: "p = (key, t)" by (cases p)
  show ?case
    using Cons.prems unfolding p
    by (cases "hasOwnProperty obj key"; cases "getProp obj key")
       (auto simp del: validateStateObject.simps split: sum.splits if_splits dest: Cons.IH)
qed

lemma checkStateObjectValid_composite_None:
  "checkStateObjectValid (CompositeSchema ps pr) obj ta pub priv = Inr (None, pub', priv') \<longleftrightarrow>
     declaredKeysValid (publicEntries ps pr) (privateBucket pr) obj \<and> pub' = pub @ map fst (publicEntries ps pr) \<and> priv' = priv @ privateKeysOf (privateBucket pr)"
proof (cases "checkLevel (publicEntries ps pr) obj ta pub None")
  case (Inl e)
  then have "\<not> levelValid (publicEntries ps pr) obj"
    using checkLevel_None[of "publicEntries ps pr" obj ta pub None "pub @ map fst (publicEntries ps pr)"] by auto
  then show ?thesis using Inl by (simp add: declaredKeysValid_def)
next
  case (Inr r)
  obtain valid pub1 where r: "r = (valid, pub1)" by (cases r)
  show ?thesis
  proof (cases "privateBucket pr")
    case None
    then show ?thesis
      using Inr r checkLevel_None[of "publicEntries ps pr" obj ta pub None pub1] checkLevel_keys[of "publicEntries ps pr" obj ta pub None valid pub1]
      by (auto simp: declaredKeysValid_def privateKeysOf_def)
  next
    case (Some prs)
    show ?thesis
    proof (cases "getProp obj ''_private''")
      case (Inl e)
      then show ?thesis using Inr r Some by (simp add: declaredKeysValid_def)
    next
      case (Inr po)
      note g = this
      show ?thesis
      proof (cases "checkLevel prs po ta priv valid")
        case (Inl e)
        have "\<not> (valid = None \<and> levelValid prs po)"
          using Inl checkLevel_None[of prs po ta priv valid "priv @ map fst prs"] by auto
        moreover have "valid = None \<longleftrightarrow> levelValid (publicEntries ps pr) obj"
          using \<open>checkLevel (publicEntries ps pr) obj ta pub None = Inr r\<close> r
            checkLevel_None[of "publicEntries ps pr" obj ta pub None pub1]
            checkLevel_keys[of "publicEntries ps pr" obj ta pub None valid pub1]
          by auto
        ultimately show ?thesis
          using Inl \<open>checkLevel (publicEntries ps pr) obj ta pub None = Inr r\<close> r Some g
          by (auto simp: declaredKeysValid_def)
      next
        case (Inr r2)
        obtain valid2 priv1 where r2: "r2 = (valid2, priv1)" by (cases r2)
        have c: "pub1 = pub @ map fst (publicEntries ps pr)"
          using \<open>checkLevel (publicEntries ps pr) obj ta pub None = Inr r\<close> r checkLevel_keys by blast
        have a: "valid = None \<longleftrightarrow> levelValid (publicEntries ps pr) obj"
          using \<open>checkLevel (publicEntries ps pr) obj ta pub None = Inr r\<close> r c
            checkLevel_None[of "publicEntries ps pr" obj ta pub None pub1]
          by auto
        have d: "priv1 = priv @ map fst prs"
          using Inr r2 checkLevel_keys by blast
        have b: "valid2 = None \<longleftrightarrow> valid = None \<and> levelValid prs po"
          using Inr r2 d checkLevel_None[of prs po ta priv valid priv1] by auto
        show ?thesis
          using Inr r2 \<open>checkLevel (publicEntries ps pr) obj ta pub None = Inr r\<close> r Some g a b c d
          by (auto simp: declaredKeysValid_def privateKeysOf_def)
      qed
    qed
  qed
qed


lemma checkStateObjectValid_composite_not_Some_True:
  "checkStateObjectValid (CompositeSchema ps pr) obj ta pub priv \<noteq> Inr (Some True, pub', priv')"
proof (cases "checkLevel (publicEntries ps pr) obj ta pub None")
  case (Inl e)
  then show ?thesis by simp
next
  case (Inr r)
  obtain valid pub1 where r: "r = (valid, pub1)" by (cases r)
  have v: "valid \<noteq> Some True"
    using Inr r checkLevel_not_Some_True[of None "publicEntries ps pr" obj ta pub pub1] by auto
  show ?thesis
  proof (cases "privateBucket pr")
    case None
    then show ?thesis using Inr r v by simp
  next
    case (Some prs)
    show ?thesis
    proof (cases "getProp obj ''_private''")
      case (Inl e)
      then show ?thesis using \<open>checkLevel (publicEntries ps pr) obj ta pub None = Inr r\<close> r Some by simp
    next
      case (Inr po)
      then show ?thesis
        using \<open>checkLevel (publicEntries ps pr) obj ta pub None = Inr r\<close> r Some
          checkLevel_not_Some_True[OF v, of prs po ta priv]
        by (auto split: sum.splits)
    qed
  qed
qed

lemma composite_isStateObjectValid:
  "isStateObjectValid (IOType n super v ts fs (Some (CompositeSchema ps pr))) obj ta pub priv = Inr True
   \<longleftrightarrow> declaredKeysValid (publicEntries ps pr) (privateBucket pr) obj \<and>
       (super = None \<longrightarrow> noExtraKeys (pub @ map fst (publicEntries ps pr)) (priv @ privateKeysOf (privateBucket pr)) obj)"
proof (cases "checkStateObjectValid (CompositeSchema ps pr) obj ta pub priv")
  case (Inl e)
  then have "\<not> declaredKeysValid (publicEntries ps pr) (privateBucket pr) obj"
    using checkStateObjectValid_composite_None[of ps pr obj ta pub priv] by auto
  then show ?thesis using Inl by (simp del: checkStateObjectValid.simps)
next
  case (Inr r)
  obtain valid pub1 priv1 where r: "r = (valid, pub1, priv1)" by (cases r)
  show ?thesis
  proof (cases valid)
    case None
    then have k: "declaredKeysValid (publicEntries ps pr) (privateBucket pr) obj" "pub1 = pub @ map fst (publicEntries ps pr)" "priv1 = priv @ privateKeysOf (privateBucket pr)"
      using Inr r checkStateObjectValid_composite_None[of ps pr obj ta pub priv pub1 priv1] by auto
    show ?thesis
      using Inr r None k
      by (cases super)
         (auto simp del: checkStateObjectValid.simps
               simp: hasCompositeSchema_def isComposite_def noExtraKeys_def rootCheck_True
               split: sum.splits)
  next
    case (Some b)
    have "b = False"
      using Inr r Some checkStateObjectValid_composite_not_Some_True[of ps pr obj ta pub priv pub1 priv1]
      by (cases b) auto
    moreover have "\<not> declaredKeysValid (publicEntries ps pr) (privateBucket pr) obj"
      using Inr r Some checkStateObjectValid_composite_None[of ps pr obj ta pub priv] by auto
    ultimately show ?thesis
      using Inr r Some by (simp del: checkStateObjectValid.simps)
  qed
qed

lemmas io_defs = NumberIO_def StringIO_def ValueIO_def ObjectIO_def BooleanIO_def
  NumberIO_isValidValue_def NumberIO_toStateObject_def NumberIO_fromStateObject_def
  isString_def isNumber_def isBoolean_def hasCompositeSchema_def isComposite_def

text \<open>
  Claim C7. \<^verbatim>\<open>NumberIO.toStateObject\<close> maps positive infinity to the string
  \<^verbatim>\<open>POSITIVE_INFINITY\<close>, negative infinity to \<^verbatim>\<open>NEGATIVE_INFINITY\<close> and every finite number
  \<open>r\<close> to itself; \<^verbatim>\<open>NumberIO.fromStateObject\<close> maps the two strings back and every finite
  number to itself, so that \<^verbatim>\<open>fromStateObject( toStateObject( x ) )\<close> is \<open>x\<close> for both
  infinities and every finite number; \<^verbatim>\<open>toStateObject( 5 )\<close> is \<open>5\<close>. The last conjunct is
  the same inversion for the two functions of the config, on every number \<open>x\<close>.
\<close>

theorem NumberIO_round_trip:
  "toStateObject NumberIO (JNum PosInf) = Inr (JStr ''POSITIVE_INFINITY'') \<and>
   toStateObject NumberIO (JNum NegInf) = Inr (JStr ''NEGATIVE_INFINITY'') \<and>
   toStateObject NumberIO (JNum (Finite r)) = Inr (JNum (Finite r)) \<and>
   fromStateObject NumberIO (JStr ''POSITIVE_INFINITY'') = Inr (JNum PosInf) \<and>
   fromStateObject NumberIO (JStr ''NEGATIVE_INFINITY'') = Inr (JNum NegInf) \<and>
   fromStateObject NumberIO (JNum (Finite r)) = Inr (JNum (Finite r)) \<and>
   roundTrip NumberIO (JNum PosInf) = Inr (JNum PosInf) \<and>
   roundTrip NumberIO (JNum NegInf) = Inr (JNum NegInf) \<and>
   roundTrip NumberIO (JNum (Finite r)) = Inr (JNum (Finite r)) \<and>
   toStateObject NumberIO (JNum (Finite 5)) = Inr (JNum (Finite 5)) \<and>
   NumberIO_fromStateObject (NumberIO_toStateObject (JNum x)) = JNum x"
  by (simp add: io_defs roundTrip_def)

text \<open>
  The theorem at \<open>r = 5\<close> and \<open>x = NaN\<close>.
\<close>

theorem NumberIO_round_trip_witness:
  "roundTrip NumberIO (JNum (Finite 5)) = Inr (JNum (Finite 5)) \<and>
   NumberIO_fromStateObject (NumberIO_toStateObject (JNum NaN)) = JNum NaN"
  using NumberIO_round_trip [of 5 NaN] by simp

text \<open>
  Claim C10. The validator of NumberIO's state schema holds exactly of the two sentinel
  strings and of the numbers other than NaN, and \<^verbatim>\<open>isStateObjectValid\<close> of NumberIO answers
  what that validator answers. The config's \<^verbatim>\<open>toStateObject\<close> passes NaN through unchanged,
  and the state object it produces fails NumberIO's own schema: \<^verbatim>\<open>isStateObjectValid\<close> is
  false on it, \<^verbatim>\<open>validateStateObject\<close> throws on it, and so does the instance's
  \<^verbatim>\<open>toStateObject( NaN )\<close>, which validates what it produced (the sources' test expects
  that throw for \<^verbatim>\<open>4 * 'oh hello'\<close>).
\<close>

theorem NumberIO_schema_rejects_NaN:
  "(NumberIO_isValidValue v \<longleftrightarrow>
      v = JStr ''POSITIVE_INFINITY'' \<or> v = JStr ''NEGATIVE_INFINITY'' \<or>
      (\<exists>x. v = JNum x \<and> x \<noteq> NaN)) \<and>
   stateSchema NumberIO = Some (ValueSchema NumberIO_displayString NumberIO_isValidValue) \<and>
   isStateObjectValid NumberIO v False pub priv = Inr (NumberIO_isValidValue v) \<and>
   NumberIO_toStateObject (JNum NaN) = JNum NaN \<and>
   isStateObjectValid NumberIO (NumberIO_toStateObject (JNum NaN)) False [] [] = Inr False \<and>
   validateStateObject NumberIO (NumberIO_toStateObject (JNum NaN)) = Inl AssertionError \<and>
   toStateObject NumberIO (JNum NaN) = Inl AssertionError"
  by (cases v) (simp_all add: io_defs)

text \<open>
  The theorem at the values \<open>5\<close>, NaN and a string that is no sentinel.
\<close>

theorem NumberIO_schema_rejects_NaN_witness:
  "NumberIO_isValidValue (JNum (Finite 5)) \<and> \<not> NumberIO_isValidValue (JNum NaN) \<and>
   \<not> NumberIO_isValidValue (JStr ''oh hello'') \<and>
   isStateObjectValid NumberIO (JNum NaN) False [] [] = Inr False"
  using NumberIO_schema_rejects_NaN [of "JNum (Finite 5)" "[]" "[]"]
    NumberIO_schema_rejects_NaN [of "JNum NaN" "[]" "[]"]
    NumberIO_schema_rejects_NaN [of "JStr ''oh hello''" "[]" "[]"]
  by simp

lemma newIOType_supertype:
  assumes "newIOType (Some ObjectIO) ioTypeName configSupertype isValidValue ts fs sch = Inr t"
  shows "\<exists>super. t = IOType ioTypeName (Some super) isValidValue ts fs sch"
  using assms
  by (cases configSupertype) (auto simp: newIOType_def Let_def split: if_splits sum.splits)

lemma sources_types_constructed:
  "newIOType None ''ObjectIO'' None (\<lambda>x. True) (Some ObjectIO_toStateObject)
     (Some (\<lambda>stateObject. Inr JNull)) None = Inr ObjectIO"
  "newIOType (Some ObjectIO) ''NumberIO'' None isNumber
     (Some (\<lambda>v. Inr (NumberIO_toStateObject v)))
     (Some (\<lambda>stateObject. Inr (NumberIO_fromStateObject stateObject)))
     (Some (ValueSchema NumberIO_displayString NumberIO_isValidValue)) = Inr NumberIO"
  "newIOType (Some ObjectIO) ''StringIO'' (Some ValueIO) isString None None
     (Some (ValueSchema ''string'' isString)) = Inr StringIO"
  by (simp_all add: newIOType_def ObjectIO_def NumberIO_def StringIO_def endsWith_def
      IO_TYPE_SUFFIX_def validateStateSchema_def)

text \<open>
  Claim C1. Let an IO Type with a composite state schema be built by the constructor (after
  \<^verbatim>\<open>ObjectIO\<close>, as every type but \<^verbatim>\<open>ObjectIO\<close> is). It has a supertype, and
  \<^verbatim>\<open>isStateObjectValid\<close> answers \<^verbatim>\<open>true\<close> exactly when every key the schema declares (public
  entries against the state object, \<^verbatim>\<open>_private\<close> entries against \<^verbatim>\<open>stateObject._private\<close>) is
  present with a value that passes its IO Type's validation: having checked its own
  composite schema, the type neither asks its supertype nor is the root, so the check for
  keys outside the schemas is not reached. For the schema \<^verbatim>\<open>{ a: NumberIO, b: StringIO }\<close>,
  validating \<^verbatim>\<open>{ a: 1, b: "hi", c: true }\<close> passes, also when asked to assert, as validating
  \<^verbatim>\<open>{ a: 1, b: "hi" }\<close> does.
\<close>

theorem isStateObjectValid_ignores_undeclared_keys:
  assumes "newIOType (Some ObjectIO) ioTypeName configSupertype isValidValue ts fs
             (Some (CompositeSchema ps pr)) = Inr t"
  shows "supertype t \<noteq> None \<and>
    (isStateObjectValid t stateObject toAssert pub priv = Inr True \<longleftrightarrow>
       declaredKeysValid (publicEntries ps pr) (privateBucket pr) stateObject) \<and>
    (case ABIO of
       Inl e \<Rightarrow> False
     | Inr abIO \<Rightarrow>
        isStateObjectValid abIO stateABC False [] [] = Inr True \<and>
        validateStateObject abIO stateABC = Inr () \<and>
        isStateObjectValid abIO stateAB False [] [] = Inr True)"
proof -
  obtain super where t: "t = IOType ioTypeName (Some super) isValidValue ts fs
      (Some (CompositeSchema ps pr))"
    using newIOType_supertype[OF assms] by blast
  have a: "supertype t \<noteq> None" by (simp add: t)
  have b: "isStateObjectValid t stateObject toAssert pub priv = Inr True \<longleftrightarrow>
       declaredKeysValid (publicEntries ps pr) (privateBucket pr) stateObject"
    unfolding t
    using composite_isStateObjectValid[of ioTypeName "Some super" isValidValue ts fs ps pr
        stateObject toAssert pub priv]
    by simp
  have c: "ABIO = Inr (IOType ''ABIO'' (Some ObjectIO) (\<lambda>x. True) None None
      (Some (CompositeSchema [(''a'', NumberIO), (''b'', StringIO)] None)))"
    by (simp add: ABIO_def newIOType_def endsWith_def IO_TYPE_SUFFIX_def
        validateStateSchema_def publicEntries_def privateBucket_def)
  have d: "isStateObjectValid (IOType ''ABIO'' (Some ObjectIO) (\<lambda>x. True) None None
      (Some (CompositeSchema [(''a'', NumberIO), (''b'', StringIO)] None))) stateABC False [] []
      = Inr True"
    "validateStateObject (IOType ''ABIO'' (Some ObjectIO) (\<lambda>x. True) None None
      (Some (CompositeSchema [(''a'', NumberIO), (''b'', StringIO)] None))) stateABC = Inr ()"
    "isStateObjectValid (IOType ''ABIO'' (Some ObjectIO) (\<lambda>x. True) None None
      (Some (CompositeSchema [(''a'', NumberIO), (''b'', StringIO)] None))) stateAB False [] []
      = Inr True"
    by (simp_all add: stateABC_def stateAB_def io_defs publicEntries_def privateBucket_def
        hasOwnProperty_def getProp_def)
  show ?thesis
    using a b d by (simp add: c)
qed

text \<open>
  The theorem at the scenario's type and the state object with the undeclared key \<^verbatim>\<open>c\<close>:
  the declared keys are valid, \<^verbatim>\<open>c\<close> is outside the schema, and the state object is valid.
\<close>

theorem isStateObjectValid_ignores_undeclared_keys_witness:
  "declaredKeysValid [(''a'', NumberIO), (''b'', StringIO)] None stateABC \<and>
   noExtraKeys [''a'', ''b''] [] stateAB \<and>
   \<not> noExtraKeys [''a'', ''b''] [] stateABC \<and>
   (case ABIO of
      Inl e \<Rightarrow> False
    | Inr abIO \<Rightarrow>
       supertype abIO = Some ObjectIO \<and>
       isStateObjectValid abIO stateABC False [] [] = Inr True \<and>
       isStateObjectValid abIO stateABC True [] [] = Inr True)"
proof -
  let ?t = "IOType ''ABIO'' (Some ObjectIO) (\<lambda>x. True) None None
      (Some (CompositeSchema [(''a'', NumberIO), (''b'', StringIO)] None))"
  have c: "ABIO = Inr ?t"
    by (simp add: ABIO_def newIOType_def endsWith_def IO_TYPE_SUFFIX_def
        validateStateSchema_def publicEntries_def privateBucket_def)
  have n: "newIOType (Some ObjectIO) ''ABIO'' None (\<lambda>x. True) None None
      (Some (CompositeSchema [(''a'', NumberIO), (''b'', StringIO)] None)) = Inr ?t"
    using c by (simp add: ABIO_def)
  have d: "declaredKeysValid [(''a'', NumberIO), (''b'', StringIO)] None stateABC"
    by (simp add: declaredKeysValid_def levelValid_def io_defs hasOwnProperty_def getProp_def
        stateABC_def)
  have e: "noExtraKeys [''a'', ''b''] [] stateAB" "\<not> noExtraKeys [''a'', ''b''] [] stateABC"
    by (simp_all add: noExtraKeys_def truthy_def isString_def Array_isArray_def Object_keys_def
        getProp_def stateABC_def stateAB_def)
  have p: "publicEntries [(''a'', NumberIO), (''b'', StringIO)] None =
      [(''a'', NumberIO), (''b'', StringIO)]" "privateBucket None = None"
    by (simp_all add: publicEntries_def privateBucket_def)
  show ?thesis
    using d e
      isStateObjectValid_ignores_undeclared_keys[OF n, of stateABC False "[]" "[]"]
      isStateObjectValid_ignores_undeclared_keys[OF n, of stateABC True "[]" "[]"]
    by (simp add: c p)
qed

section \<open>The Tandem tree\<close>

lemma bindE_simps [simp]:
  "bindE (Inl e) f = Inl e"
  "bindE (Inr x) f = f x"
  by (simp_all add: bindE_def)

lemma assertE_simps [simp]:
  "assertE True = Inr ()"
  "assertE False = Inl AssertionError"
  by (simp_all add: assertE_def)

lemma bindE_Inr_iff: "bindE m f = Inr y \<longleftrightarrow> (\<exists>x. m = Inr x \<and> f x = Inr y)"
  by (cases m) simp_all

lemma assertE_Inr_iff [simp]: "assertE c = Inr u \<longleftrightarrow> c"
  by (simp add: assertE_def)

lemma assertE_Inl_iff [simp]: "assertE c = Inl e \<longleftrightarrow> \<not> c \<and> e = AssertionError"
  by (auto simp: assertE_def)

lemma bindE_assertE: "bindE (assertE c) f = (if c then f () else Inl AssertionError)"
  by (simp add: assertE_def)

lemma getTandem_Inr_iff: "getTandem w a = Inr t \<longleftrightarrow> a < length (tandems w) \<and> tandems w ! a = t"
  by (auto simp: getTandem_def)


lemma hasChild_Inr_iff:
  "hasChild t nm = Inr b \<longleftrightarrow>
     ''hasOwnProperty'' \<notin> set (map fst (children t)) \<and> b = (nm \<in> set (map fst (children t)))"
  by (auto simp: hasChild_def)

lemma hasChild_TypeError:
  "''hasOwnProperty'' \<in> set (map fst (children t)) \<Longrightarrow> hasChild t nm = Inl TypeError"
  by (simp add: hasChild_def)

lemma createTandem_existing:
  assumes "getTandem w a = Inr t" "hasChild t nm = Inr True"
    and "createTandem cfg a nm options w = Inr (c, w1)"
  shows "w1 = w" "map_of (children t) nm = Some c"
    "\<exists>ct. getTandem w c = Inr ct \<and> Some (required ct) = optRequired (getExtendedOptions t options)
        \<and> Some (supplied ct) = optSupplied (getExtendedOptions t options)"
    "tandemClass t = RootTandem \<and> VALIDATION cfg \<longrightarrow> allowedOnRoot nm"
  using assms
  by (auto simp: createTandem_def bindE_assertE Let_def bindE_Inr_iff split: if_splits option.splits)

lemma createTandem_again:
  assumes "getTandem w a = Inr t" "hasChild t nm = Inr True" "map_of (children t) nm = Some c"
    "getTandem w c = Inr ct"
    "tandemClass t = RootTandem \<and> VALIDATION cfg \<longrightarrow> allowedOnRoot nm"
  shows "createTandem cfg a nm options w =
    (if Some (required ct) = optRequired (getExtendedOptions t options) \<and>
        Some (supplied ct) = optSupplied (getExtendedOptions t options)
     then Inr (c, w) else Inl AssertionError)"
  using assms
  by (auto simp: createTandem_def bindE_assertE Let_def)

lemma newTandem_child:
  assumes "getTandem w a = Inr t"
    and "newTandem cls (Some a) nm options w = Inr (c, w1)"
  shows "c = length (tandems w)"
    "getTandem w1 a = Inr (t\<lparr>children := children t @ (if nm = ''__proto__'' then [] else [(nm, c)])\<rparr>)"
    "getTandem w1 c = Inr \<lparr>tandemClass = cls, parentTandem = Some a, name = nm,
        phetioID = PhetioIDUtils_append (phetioID t) nm, children = [],
        required = the (optRequired (mergeOptions True True options)),
        supplied = the (optSupplied (mergeOptions True True options)), tandemIsDisposed = False\<rparr>"
    "hasChild t nm = Inr False"
    "w1 = w\<lparr>tandems :=
             (tandems w @
              [\<lparr>tandemClass = cls, parentTandem = Some a, name = nm,
                phetioID = PhetioIDUtils_append (phetioID t) nm, children = [],
                required = the (optRequired (mergeOptions True True options)),
                supplied = the (optSupplied (mergeOptions True True options)),
                tandemIsDisposed = False\<rparr>])[a := t\<lparr>children := children t @ (if nm = ''__proto__'' then [] else [(nm, c)])\<rparr>]\<rparr>"
proof -
  have a: "a < length (tandems w)" "tandems w ! a = t"
    using assms(1) by (simp_all add: getTandem_Inr_iff)
  let ?new = "\<lparr>tandemClass = cls, parentTandem = Some a, name = nm,
        phetioID = PhetioIDUtils_append (phetioID t) nm, children = [],
        required = the (optRequired (mergeOptions True True options)),
        supplied = the (optSupplied (mergeOptions True True options)), tandemIsDisposed = False\<rparr>"
  let ?w1 = "w\<lparr>tandems := tandems w @ [?new]\<rparr>"
  have g: "getTandem ?w1 a = Inr t"
    using a by (simp add: getTandem_def nth_append)
  have h: "hasChild t nm = Inr False"
  proof (cases "hasChild t nm")
    case (Inl e)
    then show ?thesis
      using assms(2)
      by (simp add: newTandem_def Let_def assms(1) g bindE_assertE split: if_splits)
  next
    case (Inr has)
    then show ?thesis
      using assms(2)
      by (cases has)
         (simp_all add: newTandem_def Let_def assms(1) g bindE_assertE split: if_splits)
  qed
  have k: "bindE (addChild a nm (length (tandems w)) ?w1) (\<lambda>w2. Inr (length (tandems w), w2)) =
      Inr (c, w1)"
    using assms(2)
    by (simp add: newTandem_def Let_def assms(1) g h bindE_assertE split: if_splits)
  then obtain w2 where ad0: "addChild a nm (length (tandems w)) ?w1 = Inr w2"
    and r: "(length (tandems w), w2) = (c, w1)"
    unfolding bindE_Inr_iff by blast
  have c: "c = length (tandems w)" and ad: "addChild a nm (length (tandems w)) ?w1 = Inr w1"
    using r ad0 by simp_all
  show "c = length (tandems w)" by (rule c)
  show "hasChild t nm = Inr False" by (rule h)
  have w1: "w1 = ?w1\<lparr>tandems := (tandems ?w1)[a := t\<lparr>children := children t @ (if nm = ''__proto__'' then [] else [(nm, c)])\<rparr>]\<rparr>"
    using ad h by (simp add: addChild_def g c split del: if_split cong: if_cong)
  show "getTandem w1 a = Inr (t\<lparr>children := children t @ (if nm = ''__proto__'' then [] else [(nm, c)])\<rparr>)"
    using a by (simp add: w1 getTandem_def)
  show "getTandem w1 c = Inr ?new"
    using a by (simp add: w1 c getTandem_def)
  show "w1 = w\<lparr>tandems := (tandems w @ [?new])[a := t\<lparr>children := children t @ (if nm = ''__proto__'' then [] else [(nm, c)])\<rparr>]\<rparr>"
    by (simp add: w1)
qed

lemma newTandem_termRegexTest:
  "newTandem cls parent nm options w = Inr r \<Longrightarrow> termRegexTest cls nm"
  by (simp add: newTandem_def bindE_assertE split: if_splits)

lemma termRegexTest_Tandem_proto:
  assumes "termRegexTest Tandem nm"
  shows "nm \<noteq> ''__proto__''"
proof
  assume "nm = ''__proto__''"
  then show False
    using assms by (simp add: termRegexTest_def isAlphaNumeric_def)
qed

text \<open>
  Claim C3. Let \<^verbatim>\<open>createTandem( nm, options )\<close> on the Tandem \<open>t\<close> at address \<open>a\<close> return
  the Tandem at address \<open>c\<close>, leaving the state \<open>w1\<close>. If \<open>nm\<close> is not \<^verbatim>\<open>hasOwnProperty\<close>, the
  same call in \<open>w1\<close> returns the same Tandem \<open>c\<close> and changes nothing; so does every call
  whose options give the same required and supplied flags (after \<^verbatim>\<open>getExtendedOptions\<close> has
  filled in the parent's); every call whose options give a different required or supplied
  flag is an assertion error; and when \<open>c\<close> was created by the first call, its name is
  \<open>nm\<close>, its parent is \<open>a\<close> and its phetioID is the parent's with \<open>nm\<close> appended. If \<open>nm\<close>
  is \<^verbatim>\<open>hasOwnProperty\<close>, the first call has created the child, and every further
  \<^verbatim>\<open>createTandem\<close> for that name on \<open>t\<close> is a TypeError, whatever its options.
\<close>

theorem createTandem_idempotent:
  assumes "getTandem w a = Inr t"
    and "createTandem cfg a nm options w = Inr (c, w1)"
  shows "(nm \<noteq> ''hasOwnProperty'' \<longrightarrow>
      createTandem cfg a nm options w1 = Inr (c, w1) \<and>
      (\<forall>options'.
         createTandem cfg a nm options' w1 =
           (if getExtendedOptions t options' = getExtendedOptions t options then Inr (c, w1)
            else Inl AssertionError))) \<and>
    (nm = ''hasOwnProperty'' \<longrightarrow>
      hasChild t nm = Inr False \<and>
      (\<forall>options'. createTandem cfg a nm options' w1 = Inl TypeError)) \<and>
    (\<exists>ct. getTandem w1 c = Inr ct \<and>
       (hasChild t nm = Inr False \<longrightarrow>
          name ct = nm \<and> parentTandem ct = Some a \<and>
          phetioID ct = PhetioIDUtils_append (phetioID t) nm))"
proof -
  have flags_eq: "\<And>o1 o2. getExtendedOptions t o1 = getExtendedOptions t o2 \<longleftrightarrow>
      optRequired (getExtendedOptions t o1) = optRequired (getExtendedOptions t o2) \<and>
      optSupplied (getExtendedOptions t o1) = optSupplied (getExtendedOptions t o2)"
    by (auto simp: getExtendedOptions_def mergeOptions_def)
  obtain has where has: "hasChild t nm = Inr has"
    and root: "tandemClass t = RootTandem \<and> VALIDATION cfg \<longrightarrow> allowedOnRoot nm"
    using assms by (auto simp: createTandem_def bindE_Inr_iff Let_def)
  have no: "''hasOwnProperty'' \<notin> set (map fst (children t))"
    and has_eq: "has = (nm \<in> set (map fst (children t)))"
    using has by (simp_all add: hasChild_Inr_iff)
  show ?thesis
  proof (cases has)
    case True
    then have hT: "hasChild t nm = Inr True" using has by simp
    have ne: "nm \<noteq> ''hasOwnProperty''"
    proof
      assume "nm = ''hasOwnProperty''"
      then have "''hasOwnProperty'' \<in> set (map fst (children t))"
        using True has_eq by simp
      then show False using no by simp
    qed
    note ex = createTandem_existing[OF assms(1) hT assms(2)]
    obtain ct where ct: "getTandem w c = Inr ct"
      "Some (required ct) = optRequired (getExtendedOptions t options)"
      "Some (supplied ct) = optSupplied (getExtendedOptions t options)"
      using ex(3) by blast
    have again: "\<And>options'. createTandem cfg a nm options' w =
      (if Some (required ct) = optRequired (getExtendedOptions t options') \<and>
          Some (supplied ct) = optSupplied (getExtendedOptions t options')
       then Inr (c, w) else Inl AssertionError)"
      by (rule createTandem_again[OF assms(1) hT ex(2) ct(1) ex(4)])
    show ?thesis
      using hT ne ex(1) ct again flags_eq by auto
  next
    case False
    then have hF: "hasChild t nm = Inr False" using has by simp
    have new: "newTandem Tandem (Some a) nm (getExtendedOptions t options) w = Inr (c, w1)"
      using assms hF
      by (auto simp: createTandem_def bindE_assertE Let_def split: if_splits)
    have np: "nm \<noteq> ''__proto__''"
      by (rule termRegexTest_Tandem_proto[OF newTandem_termRegexTest[OF new]])
    note n = newTandem_child[OF assms(1) new, unfolded if_not_P[OF np]]
    let ?t1 = "t\<lparr>children := children t @ [(nm, c)]\<rparr>"
    have ct: "\<exists>ct. getTandem w1 c = Inr ct \<and>
       (hasChild t nm = Inr False \<longrightarrow>
          name ct = nm \<and> parentTandem ct = Some a \<and>
          phetioID ct = PhetioIDUtils_append (phetioID t) nm)"
      using n(3) by simp
    show ?thesis
    proof (cases "nm = ''hasOwnProperty''")
      case True
      have "hasChild ?t1 nm' = Inl TypeError" for nm'
        by (rule hasChild_TypeError) (simp add: True)
      then have "createTandem cfg a nm options' w1 = Inl TypeError" for options'
        using root by (simp add: createTandem_def n(2) Let_def)
      then show ?thesis using True hF ct by simp
    next
      case ne: False
      have h1: "hasChild ?t1 nm = Inr True"
        using no ne by (simp add: hasChild_def)
      have m1: "map_of (children ?t1) nm = Some c"
        using False has_eq by (simp add: map_of_eq_None_iff[symmetric] map_add_def
            del: map_of_eq_None_iff)
      have r1: "tandemClass ?t1 = RootTandem \<and> VALIDATION cfg \<longrightarrow> allowedOnRoot nm"
        using root by simp
      have again: "\<And>options'. createTandem cfg a nm options' w1 =
        (if Some (the (optRequired (mergeOptions True True (getExtendedOptions t options)))) =
              optRequired (getExtendedOptions ?t1 options') \<and>
            Some (the (optSupplied (mergeOptions True True (getExtendedOptions t options)))) =
              optSupplied (getExtendedOptions ?t1 options')
         then Inr (c, w1) else Inl AssertionError)"
        using createTandem_again[OF n(2) h1 m1 n(3) r1] by simp
      have e: "\<And>o1. getExtendedOptions ?t1 o1 = getExtendedOptions t o1"
        by (simp add: getExtendedOptions_def)
      have m: "mergeOptions True True (getExtendedOptions t options) = getExtendedOptions t options"
        by (simp add: getExtendedOptions_def mergeOptions_def)
      have s: "\<And>o1. Some (the (optRequired (getExtendedOptions t o1))) = optRequired (getExtendedOptions t o1)"
        "\<And>o1. Some (the (optSupplied (getExtendedOptions t o1))) = optSupplied (getExtendedOptions t o1)"
        by (simp_all add: getExtendedOptions_def mergeOptions_def)
      have "\<And>options'. createTandem cfg a nm options' w1 =
           (if getExtendedOptions t options' = getExtendedOptions t options then Inr (c, w1)
            else Inl AssertionError)"
        using again flags_eq[of _ options] unfolding e m s by auto
      then show ?thesis using ne ct by simp
    qed
  qed
qed

text \<open>
  The theorem in \<open>demoWorld\<close>, at
  \<^verbatim>\<open>Tandem.ROOT_TEST.createTandem( 'hasOwnProperty', { required: true, supplied: true } )\<close>: the
  call returns a new Tandem, and the same call again is a TypeError; and at
  \<^verbatim>\<open>Tandem.ROOT_TEST.createTandem( 'x', { required: true, supplied: true } )\<close>: the same call,
  and the call without options, return the same Tandem \<^verbatim>\<open>sim.test.x\<close>; a call with
  \<^verbatim>\<open>{ required: false, supplied: true }\<close> or \<^verbatim>\<open>{ required: true, supplied: false }\<close> is an
  assertion error.
\<close>

theorem createTandem_idempotent_witness:
  "(\<exists>c w1.
     createTandem phetioBrand 1 ''hasOwnProperty'' (flags True True) demoWorld = Inr (c, w1) \<and>
     createTandem phetioBrand 1 ''hasOwnProperty'' (flags True True) w1 = Inl TypeError) \<and>
   (\<exists>c w1.
     createTandem phetioBrand 1 ''x'' (flags True True) demoWorld = Inr (c, w1) \<and>
     createTandem phetioBrand 1 ''x'' (flags True True) w1 = Inr (c, w1) \<and>
     createTandem phetioBrand 1 ''x'' noOptions w1 = Inr (c, w1) \<and>
     createTandem phetioBrand 1 ''x'' (flags False True) w1 = Inl AssertionError \<and>
     createTandem phetioBrand 1 ''x'' (flags True False) w1 = Inl AssertionError \<and>
     (\<exists>ct. getTandem w1 c = Inr ct \<and> phetioID ct = ''sim.test.x''))"
proof -
  let ?t = "plainTandem (Some 0) ''test'' ''sim.test''
             [(''a'', 2), (''b'', 3), (''c'', 4), (''d'', 5)]"
  have t: "getTandem demoWorld 1 = Inr ?t"
    by (simp add: getTandem_def demoWorld_def)
  have "\<exists>c w1. createTandem phetioBrand 1 ''hasOwnProperty'' (flags True True) demoWorld =
      Inr (c, w1)"
    by (simp add: createTandem_def t Let_def hasChild_def plainTandem_def newTandem_def
        termRegexTest_def isAlphaNumeric_def METADATA_KEY_def addChild_def getTandem_def
        demoWorld_def)
  then obtain c0 w0 where
    c0: "createTandem phetioBrand 1 ''hasOwnProperty'' (flags True True) demoWorld = Inr (c0, w0)"
    by blast
  have first: "\<exists>c w1.
     createTandem phetioBrand 1 ''hasOwnProperty'' (flags True True) demoWorld = Inr (c, w1) \<and>
     createTandem phetioBrand 1 ''hasOwnProperty'' (flags True True) w1 = Inl TypeError"
    using createTandem_idempotent [OF t c0] c0 by auto
  have "\<exists>c w1. createTandem phetioBrand 1 ''x'' (flags True True) demoWorld = Inr (c, w1)"
    by (simp add: createTandem_def t Let_def hasChild_def plainTandem_def newTandem_def
        termRegexTest_def isAlphaNumeric_def METADATA_KEY_def addChild_def getTandem_def
        demoWorld_def)
  then obtain c w1 where
    c: "createTandem phetioBrand 1 ''x'' (flags True True) demoWorld = Inr (c, w1)"
    by blast
  have f: "getExtendedOptions ?t noOptions = getExtendedOptions ?t (flags True True)"
     "getExtendedOptions ?t (flags False True) \<noteq> getExtendedOptions ?t (flags True True)"
     "getExtendedOptions ?t (flags True False) \<noteq> getExtendedOptions ?t (flags True True)"
     "hasChild ?t ''x'' = Inr False"
     "PhetioIDUtils_append (phetioID ?t) ''x'' = ''sim.test.x''"
    by (simp_all add: getExtendedOptions_def mergeOptions_def flags_def noOptions_def
        plainTandem_def hasChild_def PhetioIDUtils_append_def)
  have second: "\<exists>c w1.
     createTandem phetioBrand 1 ''x'' (flags True True) demoWorld = Inr (c, w1) \<and>
     createTandem phetioBrand 1 ''x'' (flags True True) w1 = Inr (c, w1) \<and>
     createTandem phetioBrand 1 ''x'' noOptions w1 = Inr (c, w1) \<and>
     createTandem phetioBrand 1 ''x'' (flags False True) w1 = Inl AssertionError \<and>
     createTandem phetioBrand 1 ''x'' (flags True False) w1 = Inl AssertionError \<and>
     (\<exists>ct. getTandem w1 c = Inr ct \<and> phetioID ct = ''sim.test.x'')"
    using createTandem_idempotent [OF t c] c f by auto
  show ?thesis using first second by blast
qed

section \<open>Buffered registration and launch\<close>

lemma isPhetioInstrumented_frame:
  "objects w' = objects w \<Longrightarrow> tandems w' = tandems w \<Longrightarrow>
   isPhetioInstrumented w' ob = isPhetioInstrumented w ob"
  by (simp add: isPhetioInstrumented_def getObject_def getTandem_def)

lemma launchLoop_flush:
  assumes "PHET_IO_ENABLED cfg" "launched w"
    and "\<forall>ob \<in> set (bufferedPhetioObjects w). isPhetioInstrumented w ob = Inr True"
  shows "launchLoop cfg w =
    Some (Inr (w\<lparr>bufferedPhetioObjects := [],
                 notifications := notifications w @
                   concat (map (notifyAdded (phetioObjectListeners w)) (bufferedPhetioObjects w))\<rparr>))"
  using assms
proof (induction "bufferedPhetioObjects w" arbitrary: w)
  case Nil
  then show ?case
    by (subst launchLoop.simps) simp
next
  case (Cons ob rest)
  have b: "bufferedPhetioObjects w = ob # rest" using Cons.hyps(2) by simp
  have inst: "isPhetioInstrumented w ob = Inr True" using Cons.prems(3) b by simp
  then have po: "ob < length (objects w)" "tandem (objects w ! ob) < length (tandems w)"
      "supplied (tandems w ! tandem (objects w ! ob))"
    by (auto simp: isPhetioInstrumented_def bindE_Inr_iff getObject_def getTandem_def
        split: if_splits)
  let ?w0 = "w\<lparr>bufferedPhetioObjects := rest\<rparr>"
  let ?w1 = "?w0\<lparr>notifications := notifications w @ notifyAdded (phetioObjectListeners w) ob\<rparr>"
  have step: "bindE (getObject w ob) (\<lambda>phetioObject.
                addPhetioObject cfg (tandem phetioObject) ob ?w0) = Inr ?w1"
    using po Cons.prems(1,2)
    by (simp add: addPhetioObject_def getObject_def getTandem_def notifyAdded_def)
  have IH: "launchLoop cfg ?w1 =
    Some (Inr (?w1\<lparr>bufferedPhetioObjects := [],
                 notifications := notifications ?w1 @
                   concat (map (notifyAdded (phetioObjectListeners ?w1)) (bufferedPhetioObjects ?w1))\<rparr>))"
  proof (rule Cons.hyps(1))
    show "rest = bufferedPhetioObjects ?w1" by simp
    show "PHET_IO_ENABLED cfg" by fact
    show "launched ?w1" using Cons.prems(2) by simp
    show "\<forall>ob\<in>set (bufferedPhetioObjects ?w1). isPhetioInstrumented ?w1 ob = Inr True"
      using Cons.prems(3) b
      by (simp add: isPhetioInstrumented_frame[of ?w1 w])
  qed
  show ?case
    by (subst launchLoop.simps) (simp add: b step IH)
qed


lemma registerAll_buffers:
  assumes "PHET_IO_ENABLED cfg" "\<not> launched w"
    and "\<forall>ob \<in> set obs. isPhetioInstrumented w ob = Inr True"
  shows "registerAll cfg obs w =
    Inr (w\<lparr>bufferedPhetioObjects := bufferedPhetioObjects w @ obs\<rparr>)"
  using assms
proof (induction obs arbitrary: w)
  case Nil
  then show ?case by simp
next
  case (Cons ob rest)
  have po: "ob < length (objects w)" "tandem (objects w ! ob) < length (tandems w)"
      "supplied (tandems w ! tandem (objects w ! ob))"
    using Cons.prems(3)
    by (auto simp: isPhetioInstrumented_def bindE_Inr_iff getObject_def getTandem_def
        split: if_splits)
  let ?w1 = "w\<lparr>bufferedPhetioObjects := bufferedPhetioObjects w @ [ob]\<rparr>"
  have step: "register cfg ob w = Inr ?w1"
    using po Cons.prems(1,2)
    by (simp add: register_def addPhetioObject_def getObject_def getTandem_def)
  have "registerAll cfg rest ?w1 =
    Inr (?w1\<lparr>bufferedPhetioObjects := bufferedPhetioObjects ?w1 @ rest\<rparr>)"
  proof (rule Cons.IH)
    show "PHET_IO_ENABLED cfg" by fact
    show "\<not> launched ?w1" using Cons.prems(2) by simp
    show "\<forall>ob\<in>set rest. isPhetioInstrumented ?w1 ob = Inr True"
      using Cons.prems(3) by (simp add: isPhetioInstrumented_frame[of ?w1 w])
  qed
  then show ?case by (simp add: step)
qed

text \<open>
  Claim C4. In the PhET-iO brand, before launch, let the buffered objects, the objects
  \<open>obs\<close> and the object \<open>later\<close> be instrumented. Registering \<open>obs\<close> in order returns,
  calls no listener and appends \<open>obs\<close> to the buffer. \<^verbatim>\<open>Tandem.launch\<close> then returns, sets
  \<^verbatim>\<open>launched\<close>, empties the buffer and calls the listeners for every buffered object, in
  the order the objects were buffered (each listener once per object). Registering
  \<open>later\<close> after that calls the listeners at once, and launching again is an assertion
  error.
\<close>

theorem launch_flushes_buffer_in_order:
  assumes "PHET_IO_ENABLED cfg" "\<not> launched w"
    and "\<forall>ob \<in> set (bufferedPhetioObjects w @ obs @ [later]). isPhetioInstrumented w ob = Inr True"
  shows "\<exists>w1 w2.
    registerAll cfg obs w = Inr w1 \<and>
    notifications w1 = notifications w \<and>
    bufferedPhetioObjects w1 = bufferedPhetioObjects w @ obs \<and>
    launch cfg w1 = Some (Inr w2) \<and>
    launched w2 \<and>
    bufferedPhetioObjects w2 = [] \<and>
    notifications w2 =
      notifications w @
      concat (map (notifyAdded (phetioObjectListeners w)) (bufferedPhetioObjects w @ obs)) \<and>
    register cfg later w2 =
      Inr (w2\<lparr>notifications := notifications w2 @ notifyAdded (phetioObjectListeners w) later\<rparr>) \<and>
    launch cfg w2 = Some (Inl AssertionError)"
proof -
  let ?w1 = "w\<lparr>bufferedPhetioObjects := bufferedPhetioObjects w @ obs\<rparr>"
  let ?wl = "?w1\<lparr>launched := True\<rparr>"
  let ?w2 = "?wl\<lparr>bufferedPhetioObjects := [],
                 notifications := notifications ?wl @
                   concat (map (notifyAdded (phetioObjectListeners ?wl)) (bufferedPhetioObjects ?wl))\<rparr>"
  have r: "registerAll cfg obs w = Inr ?w1"
    using assms by (intro registerAll_buffers) auto
  have "launchLoop cfg ?wl = Some (Inr ?w2)"
  proof (rule launchLoop_flush)
    show "PHET_IO_ENABLED cfg" by fact
    show "launched ?wl" by simp
    show "\<forall>ob\<in>set (bufferedPhetioObjects ?wl). isPhetioInstrumented ?wl ob = Inr True"
      using assms(3) by (simp add: isPhetioInstrumented_frame[of ?wl w])
  qed
  then have l: "launch cfg ?w1 = Some (Inr ?w2)"
    using assms(2) by (simp add: launch_def)
  have po: "later < length (objects w)" "tandem (objects w ! later) < length (tandems w)"
      "supplied (tandems w ! tandem (objects w ! later))"
    using assms(3)
    by (auto simp: isPhetioInstrumented_def bindE_Inr_iff getObject_def getTandem_def
        split: if_splits)
  have reg: "register cfg later ?w2 =
      Inr (?w2\<lparr>notifications := notifications ?w2 @ notifyAdded (phetioObjectListeners w) later\<rparr>)"
    using po assms(1)
    by (simp add: register_def addPhetioObject_def getObject_def getTandem_def notifyAdded_def)
  have again: "launch cfg ?w2 = Some (Inl AssertionError)"
    by (simp add: launch_def)
  show ?thesis
    apply (rule exI[of _ ?w1])
    apply (rule exI[of _ ?w2])
    using r l reg again by simp
qed

text \<open>
  The theorem in \<open>demoWorld\<close>: three objects registered before launch, one after.
\<close>

theorem launch_flushes_buffer_in_order_witness:
  "\<exists>w1 w2.
     registerAll phetioBrand [0, 1, 2] demoWorld = Inr w1 \<and>
     notifications w1 = [] \<and>
     bufferedPhetioObjects w1 = [0, 1, 2] \<and>
     launch phetioBrand w1 = Some (Inr w2) \<and>
     notifications w2 = [AddPhetioObject 7 0, AddPhetioObject 7 1, AddPhetioObject 7 2] \<and>
     register phetioBrand 3 w2 =
       Inr (w2\<lparr>notifications :=
                 [AddPhetioObject 7 0, AddPhetioObject 7 1, AddPhetioObject 7 2,
                  AddPhetioObject 7 3]\<rparr>) \<and>
     launch phetioBrand w2 = Some (Inl AssertionError)"
proof -
  have a: "PHET_IO_ENABLED phetioBrand" "\<not> launched demoWorld"
    by (simp_all add: phetioBrand_def demoWorld_def)
  have b: "\<forall>ob \<in> set (bufferedPhetioObjects demoWorld @ [0, 1, 2] @ [3]).
      isPhetioInstrumented demoWorld ob = Inr True"
    by (simp add: isPhetioInstrumented_def getObject_def getTandem_def demoWorld_def
        staticObject_def plainTandem_def)
  have c: "notifications demoWorld = []" "bufferedPhetioObjects demoWorld = []"
    "phetioObjectListeners demoWorld = [7]"
    by (simp_all add: demoWorld_def)
  obtain w1 w2 where r:
    "registerAll phetioBrand [0, 1, 2] demoWorld = Inr w1"
    "notifications w1 = notifications demoWorld"
    "bufferedPhetioObjects w1 = bufferedPhetioObjects demoWorld @ [0, 1, 2]"
    "launch phetioBrand w1 = Some (Inr w2)"
    "notifications w2 =
      notifications demoWorld @
      concat (map (notifyAdded (phetioObjectListeners demoWorld))
                (bufferedPhetioObjects demoWorld @ [0, 1, 2]))"
    "register phetioBrand 3 w2 =
      Inr (w2\<lparr>notifications :=
                notifications w2 @ notifyAdded (phetioObjectListeners demoWorld) 3\<rparr>)"
    "launch phetioBrand w2 = Some (Inl AssertionError)"
    using launch_flushes_buffer_in_order [OF a b] by blast
  show ?thesis
    using r by (intro exI[of _ w1] exI[of _ w2]) (simp add: c notifyAdded_def)
qed

section \<open>Deferred notifications\<close>

lemma flushCreations_eq:
  "notificationsDeferred g \<Longrightarrow>
   flushCreations g =
     Inr (g\<lparr>emitted := emitted g @ map ElementCreated (deferredCreations g),
            deferredCreations := []\<rparr>)"
proof (induction "deferredCreations g" arbitrary: g)
  case Nil
  then show ?case
    by (subst flushCreations.simps) simp
next
  case (Cons el rest)
  have q: "deferredCreations g = el # rest" using Cons.hyps(2) by simp
  let ?g1 = "g\<lparr>emitted := emitted g @ [ElementCreated el], deferredCreations := rest\<rparr>"
  have step: "notifyElementCreatedWhileDeferred g el = Inr ?g1"
    using Cons.prems q by (simp add: notifyElementCreatedWhileDeferred_def arrayRemove_def)
  have "flushCreations ?g1 =
     Inr (?g1\<lparr>emitted := emitted ?g1 @ map ElementCreated (deferredCreations ?g1),
            deferredCreations := []\<rparr>)"
    by (rule Cons.hyps(1)) (use Cons.prems in simp_all)
  then show ?case
    by (subst flushCreations.simps) (simp add: q step)
qed

lemma flushDisposals_eq:
  "notificationsDeferred g \<Longrightarrow>
   flushDisposals g =
     Inr (g\<lparr>emitted := emitted g @ map ElementDisposed (deferredDisposals g),
            deferredDisposals := []\<rparr>)"
proof (induction "deferredDisposals g" arbitrary: g)
  case Nil
  then show ?case
    by (subst flushDisposals.simps) simp
next
  case (Cons el rest)
  have q: "deferredDisposals g = el # rest" using Cons.hyps(2) by simp
  let ?g1 = "g\<lparr>emitted := emitted g @ [ElementDisposed el], deferredDisposals := rest\<rparr>"
  have step: "notifyElementDisposedWhileDeferred g el = Inr ?g1"
    using Cons.prems q by (simp add: notifyElementDisposedWhileDeferred_def arrayRemove_def)
  have "flushDisposals ?g1 =
     Inr (?g1\<lparr>emitted := emitted ?g1 @ map ElementDisposed (deferredDisposals ?g1),
            deferredDisposals := []\<rparr>)"
    by (rule Cons.hyps(1)) (use Cons.prems in simp_all)
  then show ?case
    by (subst flushDisposals.simps) (simp add: q step)
qed

text \<open>
  Claim C2. While the notifications of a container are deferred, \<^verbatim>\<open>notifyElementCreated\<close> only
  appends the created element to \<^verbatim>\<open>deferredCreations\<close>, and \<^verbatim>\<open>disposeElement\<close>, when it returns,
  only appends the disposed element to \<^verbatim>\<open>deferredDisposals\<close>: nothing is emitted. Then
  \<^verbatim>\<open>setNotificationsDeferred( false )\<close> returns, having emitted one creation for every queued
  creation, in the order of the queue, and after them one disposal for every queued disposal,
  in the order of the queue; both queues are empty and the notifications are no longer
  deferred.
\<close>

theorem deferred_notifications_flush:
  assumes "notificationsDeferred g"
  shows "notifyElementCreated g created =
      g\<lparr>deferredCreations := deferredCreations g @ [created]\<rparr> \<and>
    (\<forall>cfg disposed fromStateSetting w r.
       PhetioDynamicElementContainer_disposeElement cfg g disposed fromStateSetting w = Inr r \<longrightarrow>
       fst r = g\<lparr>deferredDisposals := deferredDisposals g @ [disposed]\<rparr>) \<and>
    setNotificationsDeferred g False =
      Inr (g\<lparr>emitted :=
               emitted g @ map ElementCreated (deferredCreations g) @
               map ElementDisposed (deferredDisposals g),
             deferredCreations := [], deferredDisposals := [],
             notificationsDeferred := False\<rparr>)"
proof -
  have a: "notifyElementCreated g created =
      g\<lparr>deferredCreations := deferredCreations g @ [created]\<rparr>"
    using assms by (simp add: notifyElementCreated_def)
  have b: "\<forall>cfg disposed fromStateSetting w r.
       PhetioDynamicElementContainer_disposeElement cfg g disposed fromStateSetting w = Inr r \<longrightarrow>
       fst r = g\<lparr>deferredDisposals := deferredDisposals g @ [disposed]\<rparr>"
    using assms
    by (auto simp: PhetioDynamicElementContainer_disposeElement_def bindE_Inr_iff)
  let ?g1 = "g\<lparr>emitted := emitted g @ map ElementCreated (deferredCreations g),
            deferredCreations := []\<rparr>"
  have c1: "flushCreations g = Inr ?g1"
    using assms by (rule flushCreations_eq)
  have c2: "flushDisposals ?g1 =
     Inr (?g1\<lparr>emitted := emitted ?g1 @ map ElementDisposed (deferredDisposals ?g1),
            deferredDisposals := []\<rparr>)"
    by (rule flushDisposals_eq) (use assms in simp)
  have c: "setNotificationsDeferred g False =
      Inr (g\<lparr>emitted :=
               emitted g @ map ElementCreated (deferredCreations g) @
               map ElementDisposed (deferredDisposals g),
             deferredCreations := [], deferredDisposals := [],
             notificationsDeferred := False\<rparr>)"
    using assms by (simp add: setNotificationsDeferred_def c1 c2)
  show ?thesis using a b c by blast
qed

text \<open>
  The theorem for \<open>particleGroup\<close>: three elements created and the second disposed while the
  notifications are deferred.
\<close>

theorem deferred_notifications_flush_witness:
  "(case groupRun phetioBrand
      [SetNotificationsDeferred True, CreateNextElement [], CreateNextElement [],
       CreateNextElement [], DisposeElement 1 False] particleGroup containerWorld of
      Inl e \<Rightarrow> False
    | Inr r \<Rightarrow> notificationsDeferred (fst r) \<and> deferredCreations (fst r) = [0, 1, 2] \<and>
        deferredDisposals (fst r) = [1] \<and> emitted (fst r) = [] \<and>
        (case setNotificationsDeferred (fst r) False of
           Inl e \<Rightarrow> False
         | Inr g \<Rightarrow>
            emitted g =
              [ElementCreated 0, ElementCreated 1, ElementCreated 2, ElementDisposed 1] \<and>
            deferredCreations g = [] \<and> deferredDisposals g = [] \<and>
            \<not> notificationsDeferred g))"
proof -
  have "(case groupRun phetioBrand
      [SetNotificationsDeferred True, CreateNextElement [], CreateNextElement [],
       CreateNextElement [], DisposeElement 1 False] particleGroup containerWorld of
      Inl e \<Rightarrow> False
    | Inr r \<Rightarrow> notificationsDeferred (fst r) \<and> deferredCreations (fst r) = [0, 1, 2] \<and>
        deferredDisposals (fst r) = [1] \<and> emitted (fst r) = [])"
    by code_simp
  then obtain r where
    run: "groupRun phetioBrand
      [SetNotificationsDeferred True, CreateNextElement [], CreateNextElement [],
       CreateNextElement [], DisposeElement 1 False] particleGroup containerWorld = Inr r"
    and r: "notificationsDeferred (fst r)" "deferredCreations (fst r) = [0, 1, 2]"
      "deferredDisposals (fst r) = [1]" "emitted (fst r) = []"
    by (auto split: sum.splits)
  show ?thesis
    unfolding run using deferred_notifications_flush [OF r(1)] r by simp
qed

section \<open>Effects on the store\<close>

lemma childrenNamed_iff:
  "childrenNamed w \<longleftrightarrow>
    (\<forall>a < length (tandems w). \<forall>p \<in> set (children (tandems w ! a)).
       snd p < length (tandems w) \<and> name (tandems w ! snd p) = fst p)"
  unfolding childrenNamed_def list_all_iff all_set_conv_all_nth ..

lemma addPhetioObject_frame:
  "addPhetioObject cfg a ob w = Inr w' \<Longrightarrow> tandems w' = tandems w \<and> objects w' = objects w"
  by (auto simp: addPhetioObject_def bindE_Inr_iff split: if_splits)

lemma newTandem_parent:
  assumes "newTandem cls (Some p) nm options w = Inr (c, w')"
  shows "\<exists>t. getTandem w p = Inr t"
proof (cases "getTandem w p")
  case (Inl e)
  then show ?thesis
    using assms by (simp add: newTandem_def bindE_assertE Let_def split: if_splits)
next
  case (Inr t)
  then show ?thesis by simp
qed

lemma newTandem_effect:
  assumes "newTandem cls (Some p) nm options w = Inr (c, w')"
  shows "objects w' = objects w" "c = length (tandems w)" "p < length (tandems w)"
    "length (tandems w') = Suc (length (tandems w))"
    "\<forall>a < length (tandems w). a \<noteq> p \<longrightarrow> tandems w' ! a = tandems w ! a"
    "tandems w' ! p = (tandems w ! p)\<lparr>children := children (tandems w ! p) @
        (if nm = ''__proto__'' then [] else [(nm, c)])\<rparr>"
    "name (tandems w' ! c) = nm" "children (tandems w' ! c) = []"
proof -
  obtain t where t: "getTandem w p = Inr t"
    using newTandem_parent[OF assms] by blast
  then have p: "p < length (tandems w)" "tandems w ! p = t"
    by (simp_all add: getTandem_Inr_iff)
  note n = newTandem_child[OF t assms]
  show "objects w' = objects w" by (simp add: n(5))
  show c: "c = length (tandems w)" by (rule n(1))
  show "p < length (tandems w)" by (rule p(1))
  show "length (tandems w') = Suc (length (tandems w))" by (simp add: n(5))
  show "\<forall>a < length (tandems w). a \<noteq> p \<longrightarrow> tandems w' ! a = tandems w ! a"
    by (simp add: n(5) nth_append)
  show "tandems w' ! p = (tandems w ! p)\<lparr>children := children (tandems w ! p) @
        (if nm = ''__proto__'' then [] else [(nm, c)])\<rparr>"
    using p by (simp add: n(5))
  have "tandems w' ! c = (tandems w @
              [\<lparr>tandemClass = cls, parentTandem = Some p, name = nm,
                phetioID = PhetioIDUtils_append (phetioID t) nm, children = [],
                required = the (optRequired (mergeOptions True True options)),
                supplied = the (optSupplied (mergeOptions True True options)),
                tandemIsDisposed = False\<rparr>]) ! c"
    using p by (simp add: n(5) c)
  then show "name (tandems w' ! c) = nm" "children (tandems w' ! c) = []"
    by (simp_all add: c)
qed

lemma newTandem_names:
  assumes "newTandem cls (Some p) nm options w = Inr (c, w')"
  shows "length (tandems w') = Suc (length (tandems w))"
    "\<forall>a < length (tandems w). name (tandems w' ! a) = name (tandems w ! a)"
    "name (tandems w' ! c) = nm"
    "childrenNamed w \<longrightarrow> childrenNamed w'"
proof -
  note e = newTandem_effect[OF assms]
  show l: "length (tandems w') = Suc (length (tandems w))" by (rule e(4))
  show n: "\<forall>a < length (tandems w). name (tandems w' ! a) = name (tandems w ! a)"
  proof (intro allI impI)
    fix a assume "a < length (tandems w)"
    then show "name (tandems w' ! a) = name (tandems w ! a)"
      using e(5,6) by (cases "a = p") simp_all
  qed
  show c: "name (tandems w' ! c) = nm" by (rule e(7))
  show "childrenNamed w \<longrightarrow> childrenNamed w'"
  proof
    assume w: "childrenNamed w"
    show "childrenNamed w'"
      unfolding childrenNamed_iff
    proof (intro allI impI ballI)
      fix a q
      assume a: "a < length (tandems w')" and q: "q \<in> set (children (tandems w' ! a))"
      consider "a = p" | "a = c" "a \<noteq> p" | "a \<noteq> p" "a < length (tandems w)"
        using a l e(2) by fastforce
      then show "snd q < length (tandems w') \<and> name (tandems w' ! snd q) = fst q"
      proof cases
        case 1
        then have "q \<in> set (children (tandems w ! p)) \<or> q = (nm, c)"
          using q e(6) by (auto split: if_splits)
        then show ?thesis
        proof
          assume "q \<in> set (children (tandems w ! p))"
          then have "snd q < length (tandems w) \<and> name (tandems w ! snd q) = fst q"
            using w e(3) unfolding childrenNamed_iff by blast
          then show ?thesis using n l by auto
        next
          assume "q = (nm, c)"
          then show ?thesis using c l e(2) by simp
        qed
      next
        case 2
        then have "children (tandems w' ! a) = []"
          using e(8) by simp
        then show ?thesis using q by simp
      next
        case 3
        then have "tandems w' ! a = tandems w ! a"
          using e(5) by simp
        then have "snd q < length (tandems w) \<and> name (tandems w ! snd q) = fst q"
          using w 3 q unfolding childrenNamed_iff by auto
        then show ?thesis using n l by auto
      qed
    qed
  qed
qed

lemma createTandem_effect:
  assumes "createTandem cfg p nm options w = Inr (c, w')"
  shows "objects w' = objects w \<and> c < length (tandems w') \<and>
      length (tandems w) \<le> length (tandems w') \<and>
      (\<forall>a < length (tandems w). name (tandems w' ! a) = name (tandems w ! a)) \<and>
      (childrenNamed w \<longrightarrow> childrenNamed w' \<and> name (tandems w' ! c) = nm)"
proof -
  obtain t where t: "getTandem w p = Inr t"
    using assms by (auto simp: createTandem_def bindE_Inr_iff)
  then have p: "p < length (tandems w)" "tandems w ! p = t"
    by (auto simp: getTandem_def split: if_splits)
  obtain has where has: "hasChild t nm = Inr has"
    using assms t
    by (cases "hasChild t nm")
       (simp_all add: createTandem_def bindE_assertE Let_def split: if_splits)
  show ?thesis
  proof (cases has)
    case True
    then have hT: "hasChild t nm = Inr True" using has by simp
    note ex = createTandem_existing[OF t hT assms]
    have m: "(nm, c) \<in> set (children t)" using ex(2) by (rule map_of_SomeD)
    obtain ct where "getTandem w c = Inr ct" using ex(3) by blast
    then have c: "c < length (tandems w)" by (auto simp: getTandem_def split: if_splits)
    have "childrenNamed w \<longrightarrow> name (tandems w ! c) = nm"
      using m p unfolding childrenNamed_iff by fastforce
    then show ?thesis
      using ex(1) c by simp
  next
    case False
    have new: "newTandem Tandem (Some p) nm (getExtendedOptions t options) w = Inr (c, w')"
      using assms t False has
      by (simp add: createTandem_def bindE_assertE Let_def split: if_splits)
    show ?thesis
      using newTandem_effect(1,2)[OF new] newTandem_names[OF new] by simp
  qed
qed

lemma newPhetioObject_effect:
  assumes "newPhetioObject cfg c options w = Inr (ob, w')"
  shows "tandems w' = tandems w" "ob = length (objects w)" "c < length (tandems w)"
    "\<exists>po. objects w' = objects w @ [po] \<and> tandem po = c \<and> \<not> isDisposed po"
  using assms
  by (auto simp: newPhetioObject_def bindE_Inr_iff Let_def getTandem_def
      dest!: addPhetioObject_frame split: if_splits)

lemma childrenNamed_tandems:
  "tandems w' = tandems w \<Longrightarrow> childrenNamed w' = childrenNamed w"
  by (simp add: childrenNamed_def)

lemma createDynamicElement_effect:
  assumes "createDynamicElement cfg g cn args pt w = Inr (ob, w')"
  shows "ob = length (objects w) \<and>
    (\<exists>po. objects w' = objects w @ [po] \<and> \<not> isDisposed po \<and>
       tandem po < length (tandems w') \<and>
       (childrenNamed w \<longrightarrow> name (tandems w' ! tandem po) = cn)) \<and>
    length (tandems w) \<le> length (tandems w') \<and>
    (\<forall>a < length (tandems w). name (tandems w' ! a) = name (tandems w ! a)) \<and>
    (childrenNamed w \<longrightarrow> childrenNamed w')"
proof -
  obtain t where t: "getTandem w (tandem g) = Inr t"
    using assms unfolding createDynamicElement_def bindE_Inr_iff by blast
  obtain has where has: "hasChild t cn = Inr has"
    using assms t by (cases "hasChild t cn") (simp_all add: createDynamicElement_def)
  obtain r where
    tc0: "(if \<not> has then
             newTandem DynamicTandem (Some (tandem g)) cn (getExtendedOptions t noOptions) w
           else
             bindE (createTandem cfg (tandem g) cn (getExtendedOptions t noOptions) w)
               (\<lambda>r.
             bindE (getTandem (snd r) (fst r)) (\<lambda>createdObjectTandem.
             bindE (assertE (tandemClass createdObjectTandem = DynamicTandem)) (\<lambda>u. Inr r))))
          = Inr r"
    and np0: "\<exists>r2. newPhetioObject cfg (fst r) (createElement g args) (snd r) = Inr r2 \<and>
          (ob, w') = (fst r2, snd r2)"
    using assms unfolding createDynamicElement_def t has bindE_simps Let_def bindE_Inr_iff
    by blast
  obtain c w1 where r: "r = (c, w1)" by (cases r)
  have np: "newPhetioObject cfg c (createElement g args) w1 = Inr (ob, w')"
    using np0 by (auto simp: r)
  have w1: "objects w1 = objects w \<and> c < length (tandems w1) \<and>
      length (tandems w) \<le> length (tandems w1) \<and>
      (\<forall>a < length (tandems w). name (tandems w1 ! a) = name (tandems w ! a)) \<and>
      (childrenNamed w \<longrightarrow> childrenNamed w1 \<and> name (tandems w1 ! c) = cn)"
  proof (cases has)
    case True
    then have "createTandem cfg (tandem g) cn (getExtendedOptions t noOptions) w = Inr (c, w1)"
      using tc0 by (auto simp: bindE_Inr_iff r)
    then show ?thesis by (rule createTandem_effect)
  next
    case False
    then have new: "newTandem DynamicTandem (Some (tandem g)) cn
        (getExtendedOptions t noOptions) w = Inr (c, w1)"
      using tc0 by (simp add: r)
    show ?thesis
      using newTandem_effect(1,2)[OF new] newTandem_names[OF new] by simp
  qed
  note n = newPhetioObject_effect[OF np]
  have cn: "childrenNamed w' = childrenNamed w1"
    using n(1) by (rule childrenNamed_tandems)
  obtain po where po: "objects w' = objects w1 @ [po]" "tandem po = c" "\<not> isDisposed po"
    using n(4) by blast
  have a: "ob = length (objects w)" using n(2) w1 by simp
  have b: "\<exists>po. objects w' = objects w @ [po] \<and> \<not> isDisposed po \<and>
       tandem po < length (tandems w') \<and>
       (childrenNamed w \<longrightarrow> name (tandems w' ! tandem po) = cn)"
  proof (intro exI conjI)
    show "objects w' = objects w @ [po]" using po(1) w1 by simp
    show "\<not> isDisposed po" by (rule po(3))
    show "tandem po < length (tandems w')" using w1 by (simp add: po(2) n(1))
    show "childrenNamed w \<longrightarrow> name (tandems w' ! tandem po) = cn"
      using w1 by (simp add: po(2) n(1))
  qed
  have c: "length (tandems w) \<le> length (tandems w')" using w1 by (simp add: n(1))
  have d: "\<forall>a < length (tandems w). name (tandems w' ! a) = name (tandems w ! a)"
    using w1 by (simp add: n(1))
  have e: "childrenNamed w \<longrightarrow> childrenNamed w'" using w1 by (simp add: cn)
  show ?thesis using a b c d e by blast
qed

lemma removeChild_effect:
  assumes "removeChild p nm w = Inr w'"
  shows "objects w' = objects w \<and> length (tandems w') = length (tandems w) \<and>
    (\<forall>a. name (tandems w' ! a) = name (tandems w ! a)) \<and>
    (\<forall>a. set (children (tandems w' ! a)) \<subseteq> set (children (tandems w ! a)))"
proof -
  have p: "p < length (tandems w)"
    and w': "w' = w\<lparr>tandems := (tandems w)[p :=
              (tandems w ! p)\<lparr>children := filter (\<lambda>q. fst q \<noteq> nm) (children (tandems w ! p))\<rparr>]\<rparr>"
    using assms by (auto simp: removeChild_def bindE_Inr_iff getTandem_def split: if_splits)
  have "\<And>a. name (tandems w' ! a) = name (tandems w ! a)"
    using p by (simp add: w' nth_list_update)
  moreover have "\<And>a. set (children (tandems w' ! a)) \<subseteq> set (children (tandems w ! a))"
    using p by (auto simp: w' nth_list_update)
  ultimately show ?thesis by (simp add: w')
qed

lemma Tandem_dispose_effect:
  assumes "Tandem_dispose a w = Inr w'"
  shows "objects w' = objects w \<and> length (tandems w') = length (tandems w) \<and>
    (\<forall>a. name (tandems w' ! a) = name (tandems w ! a)) \<and>
    (\<forall>a. set (children (tandems w' ! a)) \<subseteq> set (children (tandems w ! a)))"
proof -
  obtain t p w1 where t: "getTandem w a = Inr t" "parentTandem t = Some p"
    and r: "removeChild p (name t) w = Inr w1"
    and w': "a < length (tandems w1)"
       "w' = w1\<lparr>tandems := (tandems w1)[a := (tandems w1 ! a)\<lparr>tandemIsDisposed := True\<rparr>]\<rparr>"
    using assms
    by (auto simp: Tandem_dispose_def bindE_Inr_iff getTandem_def split: if_splits option.splits)
  note e = removeChild_effect[OF r]
  have "\<And>b. name (tandems w' ! b) = name (tandems w1 ! b)"
    using w'(1) by (simp add: w'(2) nth_list_update)
  moreover have "\<And>b. children (tandems w' ! b) = children (tandems w1 ! b)"
    using w'(1) by (simp add: w'(2) nth_list_update)
  ultimately show ?thesis using e by (simp add: w'(2))
qed

lemma removePhetioObject_effect:
  assumes "removePhetioObject cfg a ob w = Inr w'"
  shows "objects w' = objects w \<and> length (tandems w') = length (tandems w) \<and>
    (\<forall>a. name (tandems w' ! a) = name (tandems w ! a)) \<and>
    (\<forall>a. set (children (tandems w' ! a)) \<subseteq> set (children (tandems w ! a)))"
proof -
  have "w' = w \<or> (\<exists>w1 b. objects w1 = objects w \<and> tandems w1 = tandems w \<and>
      Tandem_dispose b w1 = Inr w')"
    using assms
    by (auto simp: removePhetioObject_def bindE_Inr_iff split: if_splits)
  then show ?thesis
  proof
    assume "w' = w" then show ?thesis by simp
  next
    assume "\<exists>w1 b. objects w1 = objects w \<and> tandems w1 = tandems w \<and>
      Tandem_dispose b w1 = Inr w'"
    then obtain w1 b where "objects w1 = objects w" "tandems w1 = tandems w"
      "Tandem_dispose b w1 = Inr w'" by blast
    then show ?thesis using Tandem_dispose_effect[of b w1 w'] by simp
  qed
qed

lemma childrenNamed_subset:
  assumes "childrenNamed w" "length (tandems w') = length (tandems w)"
    "\<forall>a. name (tandems w' ! a) = name (tandems w ! a)"
    "\<forall>a. set (children (tandems w' ! a)) \<subseteq> set (children (tandems w ! a))"
  shows "childrenNamed w'"
  using assms unfolding childrenNamed_iff by (metis subsetD)

lemma PhetioObject_dispose_effect:
  assumes "PhetioObject_dispose cfg ob w = Inr w'"
  shows "ob < length (objects w) \<and> \<not> isDisposed (objects w ! ob) \<and>
    length (objects w') = length (objects w) \<and>
    objects w' ! ob = (objects w ! ob)\<lparr>isDisposed := True\<rparr> \<and>
    (\<forall>i. i \<noteq> ob \<longrightarrow> objects w' ! i = objects w ! i) \<and>
    length (tandems w') = length (tandems w) \<and>
    (\<forall>a. name (tandems w' ! a) = name (tandems w ! a)) \<and>
    (childrenNamed w \<longrightarrow> childrenNamed w')"
proof -
  obtain w1 where ob: "ob < length (objects w)" "\<not> isDisposed (objects w ! ob)"
    and w1: "w1 = w \<or> removePhetioObject cfg (tandem (objects w ! ob)) ob w = Inr w1"
    and w': "ob < length (objects w1)"
      "w' = w1\<lparr>objects := (objects w1)[ob := (objects w1 ! ob)\<lparr>isDisposed := True\<rparr>]\<rparr>"
    using assms
    by (auto simp: PhetioObject_dispose_def bindE_Inr_iff getObject_def split: if_splits)
  have e: "objects w1 = objects w \<and> length (tandems w1) = length (tandems w) \<and>
    (\<forall>a. name (tandems w1 ! a) = name (tandems w ! a)) \<and>
    (\<forall>a. set (children (tandems w1 ! a)) \<subseteq> set (children (tandems w ! a)))"
  proof (cases "w1 = w")
    case True then show ?thesis by simp
  next
    case False
    then have "removePhetioObject cfg (tandem (objects w ! ob)) ob w = Inr w1"
      using w1 by simp
    then show ?thesis by (rule removePhetioObject_effect)
  qed
  have c: "childrenNamed w \<longrightarrow> childrenNamed w1"
    using e childrenNamed_subset by blast
  have c': "childrenNamed w1 \<longrightarrow> childrenNamed w'"
    by (simp add: w'(2) childrenNamed_def)
  have o1: "objects w1 = objects w" using e by simp
  have t': "tandems w' = tandems w1" by (simp add: w'(2))
  have o': "objects w' = (objects w)[ob := (objects w ! ob)\<lparr>isDisposed := True\<rparr>]"
    by (simp add: w'(2) o1)
  have "length (objects w') = length (objects w)" by (simp add: o')
  moreover have "objects w' ! ob = (objects w ! ob)\<lparr>isDisposed := True\<rparr>"
    using ob(1) by (simp add: o')
  moreover have "\<forall>i. i \<noteq> ob \<longrightarrow> objects w' ! i = objects w ! i"
    by (simp add: o')
  moreover have "length (tandems w') = length (tandems w)"
    using e by (simp add: t')
  moreover have "\<forall>a. name (tandems w' ! a) = name (tandems w ! a)"
    using e by (simp add: t')
  moreover have "childrenNamed w \<longrightarrow> childrenNamed w'"
    using c c' by blast
  ultimately show ?thesis
    using ob by blast
qed

lemma digit_inj: "digit a = digit b \<Longrightarrow> a mod 10 = b mod 10"
proof -
  assume e: "digit a = digit b"
  have d: "distinct ''0123456789''" by simp
  have "a mod 10 < length ''0123456789''" "b mod 10 < length ''0123456789''" by simp_all
  then show ?thesis
    using e d unfolding digit_def by (simp only: nth_eq_iff_index_eq)
qed

lemma dec_length: "10 \<le> n \<Longrightarrow> 2 \<le> length (dec n)"
  by (subst dec.simps, cases "n div 10 < 10") (simp_all del: dec.simps add: dec.simps[of "n div 10"])

lemma dec_inj: "dec m = dec n \<Longrightarrow> m = n"
proof (induction m arbitrary: n rule: dec.induct)
  case (1 m)
  show ?case
  proof (cases "m < 10")
    case True
    then have lm: "length (dec m) = 1" by simp
    have "n < 10"
    proof (rule ccontr)
      assume "\<not> n < 10"
      then have "2 \<le> length (dec n)" by (simp add: dec_length)
      then show False using lm "1.prems" by simp
    qed
    then have "digit m = digit n" using True "1.prems" by simp
    then show ?thesis using digit_inj[of m n] True \<open>n < 10\<close> by simp
  next
    case False
    then have lm: "2 \<le> length (dec m)" by (simp add: dec_length)
    have n: "\<not> n < 10"
    proof
      assume "n < 10"
      then have "length (dec n) = 1" by simp
      then show False using lm "1.prems" by simp
    qed
    have "dec (m div 10) @ [digit m] = dec (n div 10) @ [digit n]"
      using "1.prems" False n by (simp add: dec.simps[of m] dec.simps[of n] del: dec.simps)
    then have a: "dec (m div 10) = dec (n div 10)" and b: "digit m = digit n" by simp_all
    have "m div 10 = n div 10" using "1.IH"[OF False a] .
    moreover have "m mod 10 = n mod 10" using b by (rule digit_inj)
    ultimately show ?thesis by (metis div_mult_mod_eq)
  qed
qed

lemma groupComponentName_inj:
  "groupComponentName g i = groupComponentName g j \<Longrightarrow> i = j"
  by (simp add: groupComponentName_def dec_inj del: dec.simps)

lemma groupComponentName_cong:
  "phetioDynamicElementName g' = phetioDynamicElementName g \<Longrightarrow>
   groupComponentName g' = groupComponentName g"
  by (rule ext) (simp add: groupComponentName_def del: dec.simps)

section \<open>The count of a group\<close>

lemma notifyElementCreated_group [simp]:
  "array (notifyElementCreated g e) = array g"
  "countProperty (notifyElementCreated g e) = countProperty g"
  "groupElementIndex (notifyElementCreated g e) = groupElementIndex g"
  "phetioDynamicElementName (notifyElementCreated g e) = phetioDynamicElementName g"
  "listenerReads (notifyElementCreated g e) = listenerReads g"
  by (simp_all add: notifyElementCreated_def)

lemma listenersRead_group [simp]:
  "array (listenersRead g0 g) = array g"
  "countProperty (listenersRead g0 g) = countProperty g"
  "groupElementIndex (listenersRead g0 g) = groupElementIndex g"
  "phetioDynamicElementName (listenersRead g0 g) = phetioDynamicElementName g"
  "listenerReads (listenersRead g0 g) =
     listenerReads g @
     replicate (length (emitted g) - length (emitted g0)) (countProperty g0, array g0)"
  by (simp_all add: listenersRead_def)

lemma notifyElementCreatedWhileDeferred_group:
  "notifyElementCreatedWhileDeferred g e = Inr g' \<Longrightarrow>
   array g' = array g \<and> countProperty g' = countProperty g \<and>
   groupElementIndex g' = groupElementIndex g \<and>
   phetioDynamicElementName g' = phetioDynamicElementName g \<and>
   listenerReads g' = listenerReads g"
  by (auto simp: notifyElementCreatedWhileDeferred_def bindE_Inr_iff)

lemma setNotificationsDeferred_group:
  assumes "setNotificationsDeferred g deferred = Inr g'"
  shows "array g' = array g \<and> countProperty g' = countProperty g \<and>
   groupElementIndex g' = groupElementIndex g \<and>
   phetioDynamicElementName g' = phetioDynamicElementName g \<and>
   listenerReads g' = listenerReads g"
proof (cases deferred)
  case True
  then show ?thesis
    using assms by (auto simp: setNotificationsDeferred_def bindE_Inr_iff)
next
  case False
  then have d: "notificationsDeferred g"
    using assms by (auto simp: setNotificationsDeferred_def bindE_Inr_iff)
  let ?g1 = "g\<lparr>emitted := emitted g @ map ElementCreated (deferredCreations g),
            deferredCreations := []\<rparr>"
  have c1: "flushCreations g = Inr ?g1"
    using d by (rule flushCreations_eq)
  have c2: "flushDisposals ?g1 =
     Inr (?g1\<lparr>emitted := emitted ?g1 @ map ElementDisposed (deferredDisposals ?g1),
            deferredDisposals := []\<rparr>)"
    by (rule flushDisposals_eq) (use d in simp)
  show ?thesis
    using assms False by (auto simp: setNotificationsDeferred_def c1 c2 bindE_Inr_iff)
qed

lemma disposeElement_cases:
  assumes "PhetioDynamicElementContainer_disposeElement cfg g el fss w = Inr (g', w')"
  shows "PhetioObject_dispose cfg el w = Inr w'"
    "g' = (if notificationsDeferred g then g\<lparr>deferredDisposals := deferredDisposals g @ [el]\<rparr>
           else g\<lparr>emitted := emitted g @ [ElementDisposed el]\<rparr>)"
proof -
  obtain w1 where d: "PhetioObject_dispose cfg el w = Inr w1"
    and r: "(if notificationsDeferred g then
               Inr (g\<lparr>deferredDisposals := deferredDisposals g @ [el]\<rparr>, w1)
             else Inr (g\<lparr>emitted := emitted g @ [ElementDisposed el]\<rparr>, w1)) =
            (Inr (g', w') :: error + _)"
    using assms
    unfolding PhetioDynamicElementContainer_disposeElement_def bindE_Inr_iff
    by blast
  have "w' = w1" using r by (cases "notificationsDeferred g") simp_all
  then show "PhetioObject_dispose cfg el w = Inr w'" using d by simp
  show "g' = (if notificationsDeferred g then g\<lparr>deferredDisposals := deferredDisposals g @ [el]\<rparr>
           else g\<lparr>emitted := emitted g @ [ElementDisposed el]\<rparr>)"
    using r by (cases "notificationsDeferred g") simp_all
qed

lemma disposeElement_group:
  assumes "PhetioDynamicElementContainer_disposeElement cfg g el fss w = Inr (g', w')"
  shows "array g' = array g \<and> countProperty g' = countProperty g \<and>
   groupElementIndex g' = groupElementIndex g \<and>
   phetioDynamicElementName g' = phetioDynamicElementName g \<and>
   PhetioObject_dispose cfg el w = Inr w'"
  using disposeElement_cases[OF assms] by simp

lemma createIndexedElement_effect:
  assumes "createIndexedElement cfg g index args fss w = Inr (e, g', w')"
  shows "g' =
      (if notificationsDeferred g then
         g\<lparr>array := array g @ [e], countProperty := Suc (length (array g)),
           deferredCreations := deferredCreations g @ [e]\<rparr>
       else
         g\<lparr>array := array g @ [e], countProperty := Suc (length (array g)),
           emitted := emitted g @ [ElementCreated e],
           listenerReads := listenerReads g @ [(Suc (length (array g)), array g @ [e])]\<rparr>)"
    "\<exists>pt. createDynamicElement cfg g (groupComponentName g index) args pt w = Inr (e, w')"
proof -
  obtain pt r g2 where
    c: "createDynamicElement cfg g (groupComponentName g index) args pt w = Inr r"
    and s: "setCountProperty (g\<lparr>array := array g @ [fst r]\<rparr>)
              (length (array (g\<lparr>array := array g @ [fst r]\<rparr>))) = Inr g2"
    and res: "(e, g', w') =
        (fst r, listenersRead g2 (notifyElementCreated g2 (fst r)), snd r)"
    using assms unfolding createIndexedElement_def bindE_Inr_iff Let_def by blast
  have r: "r = (e, w')" using res by (cases r) simp
  have g2: "g2 = g\<lparr>array := array g @ [e], countProperty := Suc (length (array g))\<rparr>"
    using s by (simp add: setCountProperty_def r)
  have g': "g' = listenersRead g2 (notifyElementCreated g2 e)" using res r by simp
  show "g' =
      (if notificationsDeferred g then
         g\<lparr>array := array g @ [e], countProperty := Suc (length (array g)),
           deferredCreations := deferredCreations g @ [e]\<rparr>
       else
         g\<lparr>array := array g @ [e], countProperty := Suc (length (array g)),
           emitted := emitted g @ [ElementCreated e],
           listenerReads := listenerReads g @ [(Suc (length (array g)), array g @ [e])]\<rparr>)"
    unfolding g' g2 by (simp add: listenersRead_def notifyElementCreated_def)
  show "\<exists>pt. createDynamicElement cfg g (groupComponentName g index) args pt w = Inr (e, w')"
    using c r by blast
qed

lemma PhetioGroup_disposeElement_effect:
  assumes "PhetioGroup_disposeElement cfg g el fss w = Inr (g', w')"
  shows "el \<in> set (array g)"
    "PhetioObject_dispose cfg el w = Inr w'"
    "g' =
      (if notificationsDeferred g then
         g\<lparr>array := remove1 el (array g), countProperty := length (array g) - 1,
           deferredDisposals := deferredDisposals g @ [el]\<rparr>
       else
         g\<lparr>array := remove1 el (array g), countProperty := length (array g) - 1,
           emitted := emitted g @ [ElementDisposed el],
           listenerReads :=
             listenerReads g @ [(length (array g) - 1, remove1 el (array g))]\<rparr>)"
proof -
  obtain rest g1 r where
    a: "arrayRemove (array g) el = Inr rest"
    and s: "setCountProperty (g\<lparr>array := rest\<rparr>) (length rest) = Inr g1"
    and d: "PhetioDynamicElementContainer_disposeElement cfg g1 el fss w = Inr r"
    and res: "(g', w') = (listenersRead g1 (fst r), snd r)"
    using assms unfolding PhetioGroup_disposeElement_def bindE_Inr_iff by blast
  show el: "el \<in> set (array g)"
    using a by (simp add: arrayRemove_def split: if_splits)
  have rest: "rest = remove1 el (array g)"
    using a by (simp add: arrayRemove_def split: if_splits)
  have g1: "g1 = g\<lparr>array := remove1 el (array g), countProperty := length (array g) - 1\<rparr>"
    using s el by (simp add: setCountProperty_def rest length_remove1)
  have d': "PhetioDynamicElementContainer_disposeElement cfg g1 el fss w = Inr (fst r, w')"
    using d res by (cases r) simp
  note c = disposeElement_cases[OF d']
  show "PhetioObject_dispose cfg el w = Inr w'" by (rule c(1))
  have g': "g' = listenersRead g1 (fst r)" using res by simp
  show "g' =
      (if notificationsDeferred g then
         g\<lparr>array := remove1 el (array g), countProperty := length (array g) - 1,
           deferredDisposals := deferredDisposals g @ [el]\<rparr>
       else
         g\<lparr>array := remove1 el (array g), countProperty := length (array g) - 1,
           emitted := emitted g @ [ElementDisposed el],
           listenerReads :=
             listenerReads g @ [(length (array g) - 1, remove1 el (array g))]\<rparr>)"
    unfolding g' c(2) g1 by (simp add: listenersRead_def)
qed

lemma readsConsistent_append:
  "readsConsistent (g\<lparr>listenerReads := listenerReads g @ rs\<rparr>) \<longleftrightarrow>
   readsConsistent g \<and> list_all (\<lambda>r. fst r = length (snd r)) rs"
  by (simp add: readsConsistent_def)

lemma readsConsistent_listenersRead:
  assumes "countProperty g0 = length (array g0)" "readsConsistent g"
  shows "readsConsistent (listenersRead g0 g)"
  using assms by (auto simp: readsConsistent_def list_all_iff)

lemma readsConsistent_cong:
  "listenerReads g' = listenerReads g \<Longrightarrow> readsConsistent g' = readsConsistent g"
  by (simp add: readsConsistent_def)

lemma createIndexedElement_count:
  assumes "createIndexedElement cfg g index args fss w = Inr (e, g', w')"
    and "readsConsistent g"
  shows "countProperty g' = length (array g')" "readsConsistent g'"
proof -
  note f = createIndexedElement_effect(1)[OF assms(1)]
  show "countProperty g' = length (array g')"
    by (cases "notificationsDeferred g") (simp_all add: f)
  show "readsConsistent g'"
    using assms(2)
    by (cases "notificationsDeferred g") (simp_all add: f readsConsistent_def)
qed

lemma PhetioGroup_disposeElement_count:
  assumes "PhetioGroup_disposeElement cfg g el fss w = Inr (g', w')"
  shows "countProperty g' = length (array g')" "length (array g') < length (array g)"
    "readsConsistent g \<longrightarrow> readsConsistent g'"
proof -
  note e = PhetioGroup_disposeElement_effect[OF assms]
  have l: "0 < length (array g)" using e(1) by (cases "array g") simp_all
  have r: "length (remove1 el (array g)) = length (array g) - 1"
    using e(1) by (simp add: length_remove1)
  show "countProperty g' = length (array g')"
    by (cases "notificationsDeferred g") (simp_all add: e(3) r)
  show "length (array g') < length (array g)"
    using l by (cases "notificationsDeferred g") (simp_all add: e(3) r)
  show "readsConsistent g \<longrightarrow> readsConsistent g'"
    by (cases "notificationsDeferred g") (simp_all add: e(3) r readsConsistent_def)
qed

lemma clearLoop_count:
  "clearLoop cfg g fss w = Inr (g', w') \<Longrightarrow>
   countProperty g = length (array g) \<and> readsConsistent g \<Longrightarrow>
   countProperty g' = length (array g') \<and> readsConsistent g'"
proof (induction "length (array g)" arbitrary: g w rule: less_induct)
  case less
  show ?case
  proof (cases "array g")
    case Nil
    then have "g' = g" using less.prems(1) by (subst (asm) clearLoop.simps) simp
    then show ?thesis using less.prems(2) by simp
  next
    case (Cons el rest)
    then obtain g1 w1 where
      d: "PhetioGroup_disposeElement cfg g el fss w = Inr (g1, w1)"
      and r: "clearLoop cfg g1 fss w1 = Inr (g', w')"
      using less.prems(1)
      by (subst (asm) clearLoop.simps) (auto split: sum.splits)
    note c = PhetioGroup_disposeElement_count[OF d]
    have i: "countProperty g1 = length (array g1) \<and> readsConsistent g1"
      using c less.prems(2) by simp
    show ?thesis by (rule less.hyps[OF c(2) r i])
  qed
qed

lemma groupStep_count:
  assumes "groupStep cfg call g w = Inr (g', w')"
    and "countProperty g = length (array g) \<and> readsConsistent g"
  shows "countProperty g' = length (array g') \<and> readsConsistent g'"
proof (cases call)
  case (CreateNextElement args)
  then obtain e where "createIndexedElement cfg (g\<lparr>groupElementIndex := groupElementIndex g + 1\<rparr>)
      (groupElementIndex g) args False w = Inr (e, g', w')"
    using assms(1) by (auto simp: groupStep_def createNextElement_def bindE_Inr_iff)
  from createIndexedElement_count[OF this] assms(2) show ?thesis
    by (simp add: readsConsistent_def)
next
  case (CreateCorrespondingGroupElement index args)
  then obtain e g0 where c: "createIndexedElement cfg g0 index args False w = Inr (e, g', w')"
    and g0: "listenerReads g0 = listenerReads g"
    using assms(1)
    by (cases "groupElementIndex g = index")
       (auto simp: groupStep_def createCorrespondingGroupElement_def bindE_Inr_iff)
  have "readsConsistent g0" using g0 assms(2) by (simp add: readsConsistent_def)
  from createIndexedElement_count[OF c this] show ?thesis by simp
next
  case (CreateIndexedElement index args fss)
  then obtain e where "createIndexedElement cfg g index args fss w = Inr (e, g', w')"
    using assms(1) by (auto simp: groupStep_def bindE_Inr_iff)
  from createIndexedElement_count[OF this] assms(2) show ?thesis by simp
next
  case (DisposeElement el fss)
  then have "PhetioGroup_disposeElement cfg g el fss w = Inr (g', w')"
    using assms(1) by (simp add: groupStep_def)
  from PhetioGroup_disposeElement_count[OF this] assms(2) show ?thesis by simp
next
  case (Clear fss resetIndex)
  then obtain g1 where c: "clearLoop cfg g fss w = Inr (g1, w')"
    and g': "g' = (if resetIndex then g1\<lparr>groupElementIndex := 0\<rparr> else g1)"
    using assms(1) by (auto simp: groupStep_def PhetioGroup_clear_def bindE_Inr_iff)
  from clearLoop_count[OF c assms(2)] show ?thesis by (simp add: g' readsConsistent_def)
next
  case (SetNotificationsDeferred deferred)
  then obtain g1 where s: "setNotificationsDeferred g deferred = Inr g1"
    and g': "g' = listenersRead g g1"
    using assms(1) by (auto simp: groupStep_def bindE_Inr_iff)
  note f = setNotificationsDeferred_group[OF s]
  have "readsConsistent g1" using f assms(2) by (simp add: readsConsistent_def)
  then have "readsConsistent g'"
    unfolding g' using assms(2) by (intro readsConsistent_listenersRead) simp_all
  then show ?thesis using f assms(2) by (simp add: g')
next
  case (NotifyElementCreatedWhileDeferred el)
  then obtain g1 where s: "notifyElementCreatedWhileDeferred g el = Inr g1"
    and g': "g' = listenersRead g g1"
    using assms(1) by (auto simp: groupStep_def bindE_Inr_iff)
  note f = notifyElementCreatedWhileDeferred_group[OF s]
  have "readsConsistent g1" using f assms(2) by (simp add: readsConsistent_def)
  then have "readsConsistent g'"
    unfolding g' using assms(2) by (intro readsConsistent_listenersRead) simp_all
  then show ?thesis using f assms(2) by (simp add: g')
qed

lemma groupRun_count:
  "groupRun cfg calls g w = Inr (g', w') \<Longrightarrow>
   countProperty g = length (array g) \<and> readsConsistent g \<Longrightarrow>
   countProperty g' = length (array g') \<and> readsConsistent g'"
proof (induction calls arbitrary: g w)
  case Nil
  then show ?case by simp
next
  case (Cons call calls)
  then obtain g1 w1 where s: "groupStep cfg call g w = Inr (g1, w1)"
    and r: "groupRun cfg calls g1 w1 = Inr (g', w')"
    by (auto split: sum.splits)
  show ?case
    by (rule Cons.IH[OF r groupStep_count[OF s Cons.prems(2)]])
qed

text \<open>
  Claim C9. In a group whose \<^verbatim>\<open>countProperty\<close> is the length of its array (as the constructor
  leaves it) and whose listener has always found it so, this is so again after every run of
  calls that returns: \<^verbatim>\<open>countProperty\<close> is the length of the array, and at every emission
  the listener has found \<^verbatim>\<open>count\<close> to be the length of the array. \<^verbatim>\<open>createIndexedElement\<close>, when
  it returns the element \<open>e\<close>, has appended \<open>e\<close> to the array and set \<^verbatim>\<open>countProperty\<close> to the
  new length, and has then queued the creation (notifications deferred) or emitted it, the
  listener finding the new count and the array with \<open>e\<close> in it. \<^verbatim>\<open>disposeElement\<close>, when it
  returns, has removed the element (which was in the array) and set \<^verbatim>\<open>countProperty\<close> to the
  new length, has disposed the element, and has then queued the disposal or emitted it, the
  listener finding the new count and the array without the element.
\<close>

theorem countProperty_is_array_length:
  assumes "countProperty g = length (array g)" and "readsConsistent g"
  shows "(\<forall>cfg calls w r. groupRun cfg calls g w = Inr r \<longrightarrow>
            countProperty (fst r) = length (array (fst r)) \<and> readsConsistent (fst r)) \<and>
    (\<forall>cfg index args fromStateSetting w e g' w'.
       createIndexedElement cfg g index args fromStateSetting w = Inr (e, g', w') \<longrightarrow>
       g' =
         (if notificationsDeferred g then
            g\<lparr>array := array g @ [e], countProperty := length (array g @ [e]),
              deferredCreations := deferredCreations g @ [e]\<rparr>
          else
            g\<lparr>array := array g @ [e], countProperty := length (array g @ [e]),
              emitted := emitted g @ [ElementCreated e],
              listenerReads := listenerReads g @ [(length (array g @ [e]), array g @ [e])]\<rparr>)) \<and>
    (\<forall>cfg el fromStateSetting w g' w'.
       PhetioGroup_disposeElement cfg g el fromStateSetting w = Inr (g', w') \<longrightarrow>
       el \<in> set (array g) \<and>
       PhetioObject_dispose cfg el w = Inr w' \<and>
       g' =
         (if notificationsDeferred g then
            g\<lparr>array := remove1 el (array g), countProperty := length (remove1 el (array g)),
              deferredDisposals := deferredDisposals g @ [el]\<rparr>
          else
            g\<lparr>array := remove1 el (array g), countProperty := length (remove1 el (array g)),
              emitted := emitted g @ [ElementDisposed el],
              listenerReads :=
                listenerReads g @
                [(length (remove1 el (array g)), remove1 el (array g))]\<rparr>))"
proof (intro conjI allI impI)
  fix cfg calls w r
  assume "groupRun cfg calls g w = Inr r"
  then have run: "groupRun cfg calls g w = Inr (fst r, snd r)" by simp
  have i: "countProperty g = length (array g) \<and> readsConsistent g" using assms by simp
  note c = groupRun_count[OF run i]
  show "countProperty (fst r) = length (array (fst r))" using c by simp
  show "readsConsistent (fst r)" using c by simp
next
  fix cfg index args fromStateSetting w e g' w'
  assume "createIndexedElement cfg g index args fromStateSetting w = Inr (e, g', w')"
  from createIndexedElement_effect(1)[OF this]
  show "g' =
         (if notificationsDeferred g then
            g\<lparr>array := array g @ [e], countProperty := length (array g @ [e]),
              deferredCreations := deferredCreations g @ [e]\<rparr>
          else
            g\<lparr>array := array g @ [e], countProperty := length (array g @ [e]),
              emitted := emitted g @ [ElementCreated e],
              listenerReads := listenerReads g @ [(length (array g @ [e]), array g @ [e])]\<rparr>)"
    by simp
next
  fix cfg el fromStateSetting w g' w'
  assume d: "PhetioGroup_disposeElement cfg g el fromStateSetting w = Inr (g', w')"
  note e = PhetioGroup_disposeElement_effect[OF d]
  show "el \<in> set (array g)" by (rule e(1))
  then have l: "length (remove1 el (array g)) = length (array g) - 1"
    by (simp add: length_remove1)
  show "PhetioObject_dispose cfg el w = Inr w'" by (rule e(2))
  show "g' =
         (if notificationsDeferred g then
            g\<lparr>array := remove1 el (array g), countProperty := length (remove1 el (array g)),
              deferredDisposals := deferredDisposals g @ [el]\<rparr>
          else
            g\<lparr>array := remove1 el (array g), countProperty := length (remove1 el (array g)),
              emitted := emitted g @ [ElementDisposed el],
              listenerReads :=
                listenerReads g @
                [(length (remove1 el (array g)), remove1 el (array g))]\<rparr>)"
    unfolding l by (rule e(3))
qed

text \<open>
  The theorem for \<open>particleGroup\<close>: two elements created, the first disposed, one more created.
  The listener was called four times and found the counts 1, 2, 1, 2 with the arrays of
  these lengths.
\<close>

theorem countProperty_is_array_length_witness:
  "countProperty particleGroup = length (array particleGroup) \<and>
   readsConsistent particleGroup \<and>
   (case groupRun phetioBrand
      [CreateNextElement [], CreateNextElement [], DisposeElement 0 False,
       CreateNextElement []] particleGroup containerWorld of
      Inl e \<Rightarrow> False
    | Inr r \<Rightarrow> array (fst r) = [1, 2] \<and> countProperty (fst r) = 2 \<and>
        listenerReads (fst r) = [(1, [0]), (2, [0, 1]), (1, [1]), (2, [1, 2])] \<and>
        readsConsistent (fst r))"
proof -
  have a: "countProperty particleGroup = length (array particleGroup)"
    "readsConsistent particleGroup"
    by (simp_all add: particleGroup_def newGroup_def readsConsistent_def)
  have "(case groupRun phetioBrand
      [CreateNextElement [], CreateNextElement [], DisposeElement 0 False,
       CreateNextElement []] particleGroup containerWorld of
      Inl e \<Rightarrow> False
    | Inr r \<Rightarrow> array (fst r) = [1, 2] \<and>
        listenerReads (fst r) = [(1, [0]), (2, [0, 1]), (1, [1]), (2, [1, 2])])"
    by code_simp
  then obtain r where
    run: "groupRun phetioBrand
      [CreateNextElement [], CreateNextElement [], DisposeElement 0 False,
       CreateNextElement []] particleGroup containerWorld = Inr r"
    and r: "array (fst r) = [1, 2]"
      "listenerReads (fst r) = [(1, [0]), (2, [0, 1]), (1, [1]), (2, [1, 2])]"
    by (auto split: sum.splits)
  have "countProperty (fst r) = length (array (fst r)) \<and> readsConsistent (fst r)"
    using countProperty_is_array_length [OF a] run by blast
  then show ?thesis unfolding run using a r by simp
qed

section \<open>The index of a group\<close>

lemma createNextElement_step:
  assumes "createNextElement cfg g args w = Inr (e, g', w')" "childrenNamed w"
  shows "childrenNamed w'"
    "array g' = array g @ [e]"
    "groupElementIndex g' = Suc (groupElementIndex g)"
    "phetioDynamicElementName g' = phetioDynamicElementName g"
    "e = length (objects w)"
    "length (objects w') = Suc (length (objects w))"
    "tandem (objects w' ! e) < length (tandems w')"
    "tandemNameOf w' e = groupComponentName g (groupElementIndex g)"
    "length (tandems w) \<le> length (tandems w')"
    "\<forall>x < length (objects w). objects w' ! x = objects w ! x"
    "\<forall>a < length (tandems w). name (tandems w' ! a) = name (tandems w ! a)"
proof -
  let ?g0 = "g\<lparr>groupElementIndex := groupElementIndex g + 1\<rparr>"
  have c: "createIndexedElement cfg ?g0 (groupElementIndex g) args False w = Inr (e, g', w')"
    using assms(1) by (simp add: createNextElement_def)
  note f = createIndexedElement_effect[OF c]
  have n: "groupComponentName ?g0 = groupComponentName g"
    by (rule groupComponentName_cong) simp
  obtain pt where
    d: "createDynamicElement cfg ?g0 (groupComponentName g (groupElementIndex g)) args pt w =
          Inr (e, w')"
    using f(2) unfolding n by blast
  note h = createDynamicElement_effect[OF d]
  obtain po where po: "objects w' = objects w @ [po]" "tandem po < length (tandems w')"
    "name (tandems w' ! tandem po) = groupComponentName g (groupElementIndex g)"
    using h assms(2) by blast
  show "childrenNamed w'" using h assms(2) by blast
  show "array g' = array g @ [e]"
    by (cases "notificationsDeferred g") (simp_all add: f(1))
  show "groupElementIndex g' = Suc (groupElementIndex g)"
    by (cases "notificationsDeferred g") (simp_all add: f(1))
  show "phetioDynamicElementName g' = phetioDynamicElementName g"
    by (cases "notificationsDeferred g") (simp_all add: f(1))
  show e: "e = length (objects w)" using h by blast
  show "length (objects w') = Suc (length (objects w))" by (simp add: po(1))
  show "tandem (objects w' ! e) < length (tandems w')" using po by (simp add: e)
  show "tandemNameOf w' e = groupComponentName g (groupElementIndex g)"
    using po by (simp add: tandemNameOf_def e)
  show "length (tandems w) \<le> length (tandems w')" using h by blast
  show "\<forall>x < length (objects w). objects w' ! x = objects w ! x"
    by (simp add: po(1) nth_append)
  show "\<forall>a < length (tandems w). name (tandems w' ! a) = name (tandems w ! a)"
    using h by blast
qed

text \<open>The elements of the array are objects of the store, on Tandems of the store.\<close>

lemma createNextElement_run:
  assumes "groupRun cfg (map CreateNextElement argss) g w = Inr (g1, w1)"
    and "childrenNamed w"
    and "\<forall>x \<in> set (array g). x < length (objects w) \<and> tandem (objects w ! x) < length (tandems w)"
  shows "childrenNamed w1 \<and>
    map (tandemNameOf w1) (array g1) =
      map (tandemNameOf w) (array g) @
      map (groupComponentName g) [groupElementIndex g ..< groupElementIndex g + length argss] \<and>
    groupElementIndex g1 = groupElementIndex g + length argss \<and>
    phetioDynamicElementName g1 = phetioDynamicElementName g"
  using assms
proof (induction argss arbitrary: g w)
  case Nil
  then show ?case by simp
next
  case (Cons args argss)
  obtain r where s: "groupStep cfg (CreateNextElement args) g w = Inr r"
    and run: "groupRun cfg (map CreateNextElement argss) (fst r) (snd r) = Inr (g1, w1)"
    using Cons.prems(1) by (auto split: sum.splits)
  obtain e g' w' where c: "createNextElement cfg g args w = Inr (e, g', w')"
    and r: "r = (g', w')"
    using s by (cases r) (auto simp: groupStep_def bindE_Inr_iff)
  note f = createNextElement_step[OF c Cons.prems(2)]
  have old: "\<forall>x \<in> set (array g). tandemNameOf w' x = tandemNameOf w x"
  proof
    fix x assume "x \<in> set (array g)"
    then have "x < length (objects w)" "tandem (objects w ! x) < length (tandems w)"
      using Cons.prems(3) by simp_all
    then show "tandemNameOf w' x = tandemNameOf w x"
      using f(10) f(11) by (simp add: tandemNameOf_def)
  qed
  have valid: "\<forall>x \<in> set (array g').
      x < length (objects w') \<and> tandem (objects w' ! x) < length (tandems w')"
  proof
    fix x assume "x \<in> set (array g')"
    then consider "x \<in> set (array g)" | "x = e" by (auto simp: f(2))
    then show "x < length (objects w') \<and> tandem (objects w' ! x) < length (tandems w')"
    proof cases
      case 1
      then have "x < length (objects w)" "tandem (objects w ! x) < length (tandems w)"
        using Cons.prems(3) by simp_all
      then show ?thesis using f(6) f(9) f(10) by simp
    next
      case 2
      then show ?thesis using f(5) f(6) f(7) by simp
    qed
  qed
  have run': "groupRun cfg (map CreateNextElement argss) g' w' = Inr (g1, w1)"
    using run by (simp add: r)
  note ih = Cons.IH[OF run' f(1) valid]
  have n: "groupComponentName g' = groupComponentName g"
    using f(4) by (rule groupComponentName_cong)
  have u: "[groupElementIndex g ..< groupElementIndex g + length (args # argss)] =
      groupElementIndex g # [Suc (groupElementIndex g) ..< Suc (groupElementIndex g) + length argss]"
  proof -
    have "[groupElementIndex g ..< groupElementIndex g + Suc (length argss)] =
      groupElementIndex g # [Suc (groupElementIndex g) ..< groupElementIndex g + Suc (length argss)]"
      by (rule upt_conv_Cons) simp
    then show ?thesis by simp
  qed
  have m: "map (tandemNameOf w') (array g') =
      map (tandemNameOf w) (array g) @ [groupComponentName g (groupElementIndex g)]"
    using old by (simp add: f(2) f(8))
  show ?case
    using ih unfolding n f(3) f(4) m u by simp
qed

lemma PhetioGroup_disposeElement_step:
  assumes "PhetioGroup_disposeElement cfg g el fss w = Inr (g', w')" "childrenNamed w"
  shows "childrenNamed w'" "groupElementIndex g' = groupElementIndex g"
    "phetioDynamicElementName g' = phetioDynamicElementName g"
    "array g' = remove1 el (array g)"
proof -
  note e = PhetioGroup_disposeElement_effect[OF assms(1)]
  show "childrenNamed w'" using PhetioObject_dispose_effect[OF e(2)] assms(2) by simp
  show "groupElementIndex g' = groupElementIndex g"
    by (cases "notificationsDeferred g") (simp_all add: e(3))
  show "phetioDynamicElementName g' = phetioDynamicElementName g"
    by (cases "notificationsDeferred g") (simp_all add: e(3))
  show "array g' = remove1 el (array g)"
    by (cases "notificationsDeferred g") (simp_all add: e(3))
qed

text \<open>
  Claim C5. Let the children of every Tandem be in the store under their names, and let a
  group be as its constructor leaves it (no elements, \<^verbatim>\<open>groupElementIndex\<close> 0). If \<open>N\<close> calls of
  \<^verbatim>\<open>createNextElement\<close> return, the array holds \<open>N\<close> elements, whose Tandems are named by the
  indices 0, 1, ..., \<open>N\<close> - 1 in this order (the name gives the index), and
  \<^verbatim>\<open>groupElementIndex\<close> is \<open>N\<close>. If then the element at position \<open>k\<close> is disposed and
  \<^verbatim>\<open>createNextElement\<close> is called once more, the new element is named by the index \<open>N\<close>, which
  is not the name of the disposed element, and \<^verbatim>\<open>groupElementIndex\<close> is \<open>N\<close> + 1.
\<close>

theorem group_index_never_reused:
  assumes "childrenNamed w" "array g = []" "groupElementIndex g = 0"
    and "groupRun cfg (map CreateNextElement argss) g w = Inr (g1, w1)"
  shows "length (array g1) = length argss \<and>
    map (tandemNameOf w1) (array g1) = map (groupComponentName g) [0 ..< length argss] \<and>
    inj (groupComponentName g) \<and>
    groupElementIndex g1 = length argss \<and>
    (\<forall>k fromStateSetting args g2 w2 e g3 w3.
       k < length argss \<longrightarrow>
       PhetioGroup_disposeElement cfg g1 (array g1 ! k) fromStateSetting w1 = Inr (g2, w2) \<longrightarrow>
       createNextElement cfg g2 args w2 = Inr (e, g3, w3) \<longrightarrow>
       tandemNameOf w3 e = groupComponentName g (length argss) \<and>
       tandemNameOf w3 e \<noteq> tandemNameOf w1 (array g1 ! k) \<and>
       array g3 = remove1 (array g1 ! k) (array g1) @ [e] \<and>
       groupElementIndex g3 = length argss + 1)"
proof -
  have v: "\<forall>x \<in> set (array g).
      x < length (objects w) \<and> tandem (objects w ! x) < length (tandems w)"
    by (simp add: assms(2))
  note r = createNextElement_run[OF assms(4) assms(1) v]
  have names: "map (tandemNameOf w1) (array g1) = map (groupComponentName g) [0 ..< length argss]"
    using r by (simp add: assms(2) assms(3))
  have len: "length (array g1) = length argss"
    using arg_cong[OF names, of length] by simp
  have idx: "groupElementIndex g1 = length argss" using r by (simp add: assms(3))
  have inj: "inj (groupComponentName g)"
    by (rule injI) (rule groupComponentName_inj)
  have n1: "groupComponentName g1 = groupComponentName g"
    using r by (intro groupComponentName_cong) simp
  have after: "tandemNameOf w3 e = groupComponentName g (length argss) \<and>
       tandemNameOf w3 e \<noteq> tandemNameOf w1 (array g1 ! k) \<and>
       array g3 = remove1 (array g1 ! k) (array g1) @ [e] \<and>
       groupElementIndex g3 = length argss + 1"
    if k: "k < length argss"
      and d: "PhetioGroup_disposeElement cfg g1 (array g1 ! k) fss w1 = Inr (g2, w2)"
      and c: "createNextElement cfg g2 args w2 = Inr (e, g3, w3)"
    for k fss args g2 w2 e g3 w3
  proof -
    have c1: "childrenNamed w1" using r by simp
    note ds = PhetioGroup_disposeElement_step[OF d c1]
    note cs = createNextElement_step[OF c ds(1)]
    have n2: "groupComponentName g2 = groupComponentName g"
      using ds(3) n1 groupComponentName_cong[of g2 g1] by simp
    have a: "tandemNameOf w3 e = groupComponentName g (length argss)"
      using cs(8) by (simp add: n2 ds(2) idx)
    have "tandemNameOf w1 (array g1 ! k) = map (tandemNameOf w1) (array g1) ! k"
      using k len by simp
    also have "\<dots> = groupComponentName g k"
      unfolding names using k by simp
    finally have b: "tandemNameOf w1 (array g1 ! k) = groupComponentName g k" .
    have "groupComponentName g (length argss) \<noteq> groupComponentName g k"
      using k groupComponentName_inj[of g "length argss" k] by auto
    then show ?thesis
      using a b cs(2) cs(3) ds(2) ds(4) idx by simp
  qed
  show ?thesis
    using len names inj idx after by blast
qed

text \<open>
  The theorem for \<open>particleGroup\<close>: three elements created, the second disposed, one more
  created.
\<close>

theorem group_index_never_reused_witness:
  "childrenNamed containerWorld \<and> array particleGroup = [] \<and>
   groupElementIndex particleGroup = 0 \<and>
   (case groupRun phetioBrand (map CreateNextElement [[], [], []]) particleGroup
           containerWorld of
      Inl e \<Rightarrow> False
    | Inr r1 \<Rightarrow>
       map (tandemNameOf (snd r1)) (array (fst r1)) =
         [''particle_0'', ''particle_1'', ''particle_2''] \<and>
       groupElementIndex (fst r1) = 3 \<and>
       (case PhetioGroup_disposeElement phetioBrand (fst r1) (array (fst r1) ! 1) False
               (snd r1) of
          Inl e \<Rightarrow> False
        | Inr r2 \<Rightarrow>
           (case createNextElement phetioBrand (fst r2) [] (snd r2) of
              Inl e \<Rightarrow> False
            | Inr r3 \<Rightarrow>
               tandemNameOf (snd (snd r3)) (fst r3) = ''particle_3'' \<and>
               groupElementIndex (fst (snd r3)) = 4)))"
proof -
  have a: "childrenNamed containerWorld" by code_simp
  have b: "array particleGroup = []" "groupElementIndex particleGroup = 0"
    by (simp_all add: particleGroup_def newGroup_def)
  have "(case groupRun phetioBrand (map CreateNextElement [[], [], []]) particleGroup
           containerWorld of
      Inl e \<Rightarrow> False
    | Inr r1 \<Rightarrow>
       (case PhetioGroup_disposeElement phetioBrand (fst r1) (array (fst r1) ! 1) False
               (snd r1) of
          Inl e \<Rightarrow> False
        | Inr r2 \<Rightarrow>
           (case createNextElement phetioBrand (fst r2) [] (snd r2) of
              Inl e \<Rightarrow> False
            | Inr r3 \<Rightarrow> True)))"
    by code_simp
  then obtain g1 w1 g2 w2 e g3 w3 where
    run: "groupRun phetioBrand (map CreateNextElement [[], [], []]) particleGroup
           containerWorld = Inr (g1, w1)"
    and d: "PhetioGroup_disposeElement phetioBrand g1 (array g1 ! 1) False w1 = Inr (g2, w2)"
    and c: "createNextElement phetioBrand g2 [] w2 = Inr (e, g3, w3)"
    by (auto split: sum.splits)
  have n: "map (groupComponentName particleGroup) [0 ..< length [[], [], []::jsval list]] =
      [''particle_0'', ''particle_1'', ''particle_2'']"
    "groupComponentName particleGroup (length [[], [], []::jsval list]) = ''particle_3''"
    by code_simp+
  have k: "1 < length [[], [], []::jsval list]" by simp
  note t = group_index_never_reused [OF a b run]
  have t1: "map (tandemNameOf w1) (array g1) = [''particle_0'', ''particle_1'', ''particle_2'']"
    "groupElementIndex g1 = 3"
    using t n(1) by simp_all
  have "tandemNameOf w3 e = groupComponentName particleGroup (length [[], [], []::jsval list]) \<and>
      groupElementIndex g3 = length [[], [], []::jsval list] + 1"
    using t k d c by blast
  then have t2: "tandemNameOf w3 e = ''particle_3''" "groupElementIndex g3 = 4"
    using n(2) by simp_all
  show ?thesis
    unfolding run sum.case fst_conv snd_conv d c using a b t1 t2 by simp
qed

section \<open>The slot of a capsule\<close>

lemma PhetioCapsule_create_effect:
  assumes "PhetioCapsule_create cfg g args fss w = Inr (e, g', w')"
  shows "element g' = Some e" "e = length (objects w)"
    "length (objects w') = Suc (length (objects w))"
    "\<not> isDisposed (objects w' ! e)"
    "\<forall>x < length (objects w). objects w' ! x = objects w ! x"
proof -
  obtain pt r where
    c: "createDynamicElement cfg g (phetioDynamicElementName g) args pt w = Inr r"
    and res: "(e, g', w') = (fst r, notifyElementCreated (g\<lparr>element := Some (fst r)\<rparr>) (fst r), snd r)"
    using assms unfolding PhetioCapsule_create_def bindE_Inr_iff Let_def by blast
  have r: "r = (e, w')" using res by (cases r) simp
  have g': "g' = notifyElementCreated (g\<lparr>element := Some e\<rparr>) e" using res r by simp
  show "element g' = Some e" by (simp add: g' notifyElementCreated_def)
  note d = createDynamicElement_effect[OF c[unfolded r]]
  show e: "e = length (objects w)" using d by simp
  obtain po where po: "objects w' = objects w @ [po]" "\<not> isDisposed po" using d by blast
  show "length (objects w') = Suc (length (objects w))" by (simp add: po(1))
  show "\<not> isDisposed (objects w' ! e)" using po by (simp add: e)
  show "\<forall>x < length (objects w). objects w' ! x = objects w ! x"
    by (simp add: po(1) nth_append)
qed

lemma PhetioCapsule_disposeElement_effect:
  assumes "PhetioCapsule_disposeElement cfg g fss w = Inr (g', w')"
  shows "element g' = None"
  using assms
  by (auto simp: PhetioCapsule_disposeElement_def bindE_Inr_iff split: option.splits)

lemma capsuleStep_slotLive:
  assumes "capsuleStep cfg call g w = Inr (g', w')" "slotLive g w"
  shows "slotLive g' w'"
proof (cases call)
  case (Create args fss)
  then obtain e where "PhetioCapsule_create cfg g args fss w = Inr (e, g', w')"
    using assms(1) by (auto simp: capsuleStep_def bindE_Inr_iff)
  from PhetioCapsule_create_effect[OF this] show ?thesis by (simp add: slotLive_def)
next
  case (GetElement args)
  show ?thesis
  proof (cases "element g")
    case None
    then obtain e where "PhetioCapsule_create cfg g args False w = Inr (e, g', w')"
      using assms(1) GetElement
      by (auto simp: capsuleStep_def PhetioCapsule_getElement_def bindE_Inr_iff)
    from PhetioCapsule_create_effect[OF this] show ?thesis by (simp add: slotLive_def)
  next
    case (Some el)
    then have "g' = g" "w' = w"
      using assms(1) GetElement
      by (auto simp: capsuleStep_def PhetioCapsule_getElement_def bindE_Inr_iff)
    then show ?thesis using assms(2) by simp
  qed
next
  case (CapsuleClear fss)
  show ?thesis
  proof (cases "element g")
    case None
    then have "g' = g" "w' = w"
      using assms(1) CapsuleClear by (auto simp: capsuleStep_def PhetioCapsule_clear_def)
    then show ?thesis using assms(2) by simp
  next
    case (Some el)
    then have "PhetioCapsule_disposeElement cfg g fss w = Inr (g', w')"
      using assms(1) CapsuleClear by (auto simp: capsuleStep_def PhetioCapsule_clear_def)
    from PhetioCapsule_disposeElement_effect[OF this] show ?thesis by (simp add: slotLive_def)
  qed
next
  case (CapsuleDisposeElement fss)
  then have "PhetioCapsule_disposeElement cfg g fss w = Inr (g', w')"
    using assms(1) by (auto simp: capsuleStep_def)
  from PhetioCapsule_disposeElement_effect[OF this] show ?thesis by (simp add: slotLive_def)
qed

lemma capsuleRun_slotLive:
  "capsuleRun cfg calls g w = Inr (g', w') \<Longrightarrow> slotLive g w \<Longrightarrow> slotLive g' w'"
proof (induction calls arbitrary: g w)
  case Nil
  then show ?case by simp
next
  case (Cons call calls)
  then obtain g1 w1 where s: "capsuleStep cfg call g w = Inr (g1, w1)"
    and r: "capsuleRun cfg calls g1 w1 = Inr (g', w')"
    by (auto split: sum.splits)
  show ?case
    by (rule Cons.IH[OF r capsuleStep_slotLive[OF s Cons.prems(2)]])
qed

text \<open>
  Claim C6. The slot \<^verbatim>\<open>element\<close> of a capsule holds at most one element, and when it holds
  one, that element is not disposed: this is so after every run of \<^verbatim>\<open>create\<close>, \<^verbatim>\<open>getElement\<close>,
  \<^verbatim>\<open>clear\<close> and \<^verbatim>\<open>disposeElement\<close> that returns. \<^verbatim>\<open>create\<close>, when it returns, has put the
  element it created, a new and undisposed object, into the slot, and has left every other
  object as it was: an element that was in the slot before is no longer referenced, and is
  not disposed.
\<close>

theorem capsule_slot_live:
  assumes "slotLive g w"
  shows "(\<forall>cfg calls r. capsuleRun cfg calls g w = Inr r \<longrightarrow> slotLive (fst r) (snd r)) \<and>
    (\<forall>cfg args fromStateSetting e g' w'.
       PhetioCapsule_create cfg g args fromStateSetting w = Inr (e, g', w') \<longrightarrow>
       element g' = Some e \<and> e = length (objects w) \<and> \<not> isDisposed (objects w' ! e) \<and>
       (\<forall>x < length (objects w). objects w' ! x = objects w ! x) \<and>
       (\<forall>old. element g = Some old \<longrightarrow> old \<noteq> e \<and> \<not> isDisposed (objects w' ! old)))"
proof (intro conjI allI impI)
  fix cfg calls r
  assume "capsuleRun cfg calls g w = Inr r"
  then have "capsuleRun cfg calls g w = Inr (fst r, snd r)" by simp
  then show "slotLive (fst r) (snd r)" using assms by (rule capsuleRun_slotLive)
next
  fix cfg args fromStateSetting e g' w'
  assume c: "PhetioCapsule_create cfg g args fromStateSetting w = Inr (e, g', w')"
  note f = PhetioCapsule_create_effect[OF c]
  show "element g' = Some e" by (rule f(1))
  show "e = length (objects w)" by (rule f(2))
  show "\<not> isDisposed (objects w' ! e)" by (rule f(4))
  {
    fix x assume "x < length (objects w)"
    then show "objects w' ! x = objects w ! x" using f(5) by simp
  }
  {
    fix old assume o: "element g = Some old"
    then have l: "old < length (objects w)" "\<not> isDisposed (objects w ! old)"
      using assms by (simp_all add: slotLive_def)
    show "old \<noteq> e" using l(1) f(2) by simp
    show "\<not> isDisposed (objects w' ! old)" using l f(5) by simp
  }
qed

text \<open>
  The theorem for \<open>dialogCapsule\<close>: after \<^verbatim>\<open>create\<close>, \<^verbatim>\<open>getElement\<close> and \<^verbatim>\<open>create\<close> again, the slot
  holds the second element, and the first is not disposed; after \<^verbatim>\<open>clear\<close> the slot is empty,
  the second element is disposed and the first is still not.
\<close>

theorem capsule_slot_live_witness:
  "slotLive dialogCapsule containerWorld \<and>
   (case capsuleRun phetioBrand [Create [] False, GetElement [], Create [] False]
           dialogCapsule containerWorld of
      Inl e \<Rightarrow> False
    | Inr r \<Rightarrow>
       element (fst r) = Some 1 \<and> slotLive (fst r) (snd r) \<and>
       map isDisposed (objects (snd r)) = [False, False] \<and>
       (case capsuleRun phetioBrand [CapsuleClear False] (fst r) (snd r) of
          Inl e \<Rightarrow> False
        | Inr r2 \<Rightarrow>
           element (fst r2) = None \<and> slotLive (fst r2) (snd r2) \<and>
           map isDisposed (objects (snd r2)) = [False, True]))"
proof -
  have a: "slotLive dialogCapsule containerWorld"
    by (simp add: slotLive_def dialogCapsule_def newCapsule_def)
  have "(case capsuleRun phetioBrand [Create [] False, GetElement [], Create [] False]
           dialogCapsule containerWorld of
      Inl e \<Rightarrow> False
    | Inr r \<Rightarrow>
       element (fst r) = Some 1 \<and>
       map isDisposed (objects (snd r)) = [False, False] \<and>
       (case capsuleRun phetioBrand [CapsuleClear False] (fst r) (snd r) of
          Inl e \<Rightarrow> False
        | Inr r2 \<Rightarrow>
           element (fst r2) = None \<and>
           map isDisposed (objects (snd r2)) = [False, True]))"
    by code_simp
  then obtain r r2 where
    run: "capsuleRun phetioBrand [Create [] False, GetElement [], Create [] False]
           dialogCapsule containerWorld = Inr r"
    and r: "element (fst r) = Some 1" "map isDisposed (objects (snd r)) = [False, False]"
    and run2: "capsuleRun phetioBrand [CapsuleClear False] (fst r) (snd r) = Inr r2"
    and r2: "element (fst r2) = None" "map isDisposed (objects (snd r2)) = [False, True]"
    by (auto split: sum.splits)
  have s: "slotLive (fst r) (snd r)"
    using capsule_slot_live [OF a] run by blast
  have s2: "slotLive (fst r2) (snd r2)"
    by (simp add: slotLive_def r2(1))
  show ?thesis
    unfolding run sum.case run2 using a r r2 s s2 by simp
qed

section \<open>Validation of the overrides file\<close>

lemma hasOwnProperty_JObj:
  "''hasOwnProperty'' \<notin> set (map fst kvs) \<Longrightarrow>
   hasOwnProperty (JObj kvs) k = Inr (k \<in> set (map fst kvs))"
  "''hasOwnProperty'' \<in> set (map fst kvs) \<Longrightarrow> hasOwnProperty (JObj kvs) k = Inl TypeError"
  by (simp_all add: hasOwnProperty_def)

lemma metadataLoop_clean:
  "''hasOwnProperty'' \<notin> set (map fst baseline) \<Longrightarrow>
   \<forall>k \<in> set ks. \<not> metadataKeyViolation override baseline k \<Longrightarrow>
   metadataLoop pid (JObj override) (JObj baseline) ks = ([], Inr ())"
  by (induction ks)
     (simp_all add: hasOwnProperty_JObj getProp_def propertyOf_def metadataKeyViolation_def)

lemma metadataLoop_violation:
  assumes "''hasOwnProperty'' \<notin> set (map fst baseline)"
  shows "\<exists>k \<in> set ks. metadataKeyViolation override baseline k \<Longrightarrow>
   \<exists>m. metadataLoop pid (JObj override) (JObj baseline) ks =
     ([ApiErrorObject pid
         ''8. Any schema entries in the overrides file must be different from its baseline counterpart.''
         m], Inl AssertionError)"
proof (induction ks)
  case Nil
  then show ?case by simp
next
  case (Cons k ks)
  note h = hasOwnProperty_JObj(1)[OF assms]
  show ?case
  proof (cases "metadataKeyViolation override baseline k")
    case True
    then show ?thesis
      by (auto simp: h getProp_def propertyOf_def metadataKeyViolation_def
          assertAPIError_def)
  next
    case False
    then have "\<exists>k \<in> set ks. metadataKeyViolation override baseline k"
      using Cons.prems by auto
    from Cons.IH[OF this] False show ?thesis
      by (simp add: h getProp_def propertyOf_def metadataKeyViolation_def)
  qed
qed

lemma metadataLoop_shadowed:
  "''hasOwnProperty'' \<in> set (map fst baseline) \<Longrightarrow> ks \<noteq> [] \<Longrightarrow>
   metadataLoop pid override (JObj baseline) ks = ([], Inl TypeError)"
  by (cases ks) (simp_all add: hasOwnProperty_JObj)

lemma metadataLoop_console:
  "metadataLoop pid override baseline ks = (console, Inr u) \<Longrightarrow> console = []"
  by (induction ks)
     (auto simp: assertAPIError_def split: sum.splits if_splits)

lemma validateEntry_console:
  "validateEntry ca eb ov pid = (console, Inr u) \<Longrightarrow> console = []"
  by (auto simp: validateEntry_def Let_def assertAPIError_def
      split: sum.splits if_splits dest: metadataLoop_console)

lemma validateLoop_console:
  "validateLoop ca eb ov ks = (console, Inr u) \<Longrightarrow> console = []"
proof (induction ks arbitrary: console)
  case Nil
  then show ?case by simp
next
  case (Cons k ks)
  then show ?case
    by (auto split: prod.splits sum.splits dest: validateEntry_console)
qed

lemma validateLoop_returns:
  "snd (validateLoop ca eb ov ks) = Inr () \<longleftrightarrow>
   (\<forall>k \<in> set ks. validateEntry ca eb ov k = ([], Inr ()))"
proof (induction ks)
  case Nil
  then show ?case by simp
next
  case (Cons k ks)
  obtain c r where e: "validateEntry ca eb ov k = (c, r)" by (cases "validateEntry ca eb ov k")
  show ?case
  proof (cases r)
    case (Inl err)
    then show ?thesis by (simp add: e)
  next
    case (Inr u)
    then have "c = []" using e validateEntry_console by blast
    then show ?thesis using Cons.IH Inr by (simp add: e split: prod.splits)
  qed
qed

text \<open>
  The overrides files of claim C8 that are not reported: archetypes are not created at
  runtime, and the override is for an element that the baseline does not have and whose
  phetioID contains \<^verbatim>\<open>archetype\<close>. The validation prints nothing and returns, also when the
  override has no metadata keys.
\<close>

theorem archetype_override_not_reported:
  "hasOwnProperty demoBaseline ''sim.screen.model.particleGroup.archetype'' = Inr False \<and>
   Object_keys archetypeOverrides = [''sim.screen.model.particleGroup.archetype''] \<and>
   validateOverridesFile False demoBaseline archetypeOverrides = ([], Inr ()) \<and>
   getProp emptyArchetypeOverrides ''sim.screen.model.particleGroup.archetype'' = Inr (JObj []) \<and>
   validateOverridesFile False demoBaseline emptyArchetypeOverrides = ([], Inr ())"
  by code_simp

text \<open>
  Claim C8, amended. Let the baseline and the overrides be objects, and let an entry of the
  overrides be an object \<open>override\<close> under the key \<open>pid\<close>. A baseline that has a key named
  \<^verbatim>\<open>hasOwnProperty\<close> cannot be asked for its keys: the validation of the entry ends in a
  TypeError and reports nothing. For every other baseline: if the baseline does not have the
  key \<open>pid\<close>, then, when archetypes are created at runtime, the entry is reported (rule 3);
  when they are not, nothing is reported and nothing else of the entry is checked, and the
  entry passes if the key contains \<^verbatim>\<open>archetype\<close> and fails a plain assertion otherwise. If the
  baseline has the key: an override without metadata keys is reported (rule 4); when the
  override has metadata keys and the baseline counterpart is an object, then a counterpart
  with a key named \<^verbatim>\<open>hasOwnProperty\<close> ends the validation in a TypeError, and for every
  other counterpart an override with a metadata key that the counterpart does not have, or
  has with a strictly equal value, is reported (under the number 8), and an override with no
  such key passes. Every report is followed by an assertion error. The validation of the
  file returns exactly when every entry passes.
\<close>

theorem validateOverridesFile_violations:
  assumes "map_of overrides pid = Some (JObj override)"
  shows
    "(''hasOwnProperty'' \<in> set (map fst entireBaseline) \<longrightarrow>
        validateEntry createArchetypes (JObj entireBaseline) (JObj overrides) pid =
          ([], Inl TypeError)) \<and>
     (''hasOwnProperty'' \<notin> set (map fst entireBaseline) \<longrightarrow>
        (pid \<notin> set (map fst entireBaseline) \<longrightarrow>
           validateEntry True (JObj entireBaseline) (JObj overrides) pid =
             ([ApiErrorObject pid
                 ''3. Any schema entries in the overrides file must exist in the baseline file.''
                 ''phetioID expected in the baseline file but does not exist''],
              Inl AssertionError) \<and>
           validateEntry False (JObj entireBaseline) (JObj overrides) pid =
             ([], if String_indexOf pid ''archetype'' \<ge> 0 then Inr () else Inl AssertionError)) \<and>
        (pid \<in> set (map fst entireBaseline) \<and> override = [] \<longrightarrow>
           validateEntry createArchetypes (JObj entireBaseline) (JObj overrides) pid =
             ([ApiErrorObject pid
                 ''4. Any schema entries in the overrides file must be different from its baseline counterpart.''
                 ''no metadata keys found for this override.''],
              Inl AssertionError)) \<and>
        (\<forall>baseline. map_of entireBaseline pid = Some (JObj baseline) \<and> override \<noteq> [] \<longrightarrow>
           (''hasOwnProperty'' \<in> set (map fst baseline) \<longrightarrow>
              validateEntry createArchetypes (JObj entireBaseline) (JObj overrides) pid =
                ([], Inl TypeError)) \<and>
           (''hasOwnProperty'' \<notin> set (map fst baseline) \<longrightarrow>
              ((\<exists>metadataKey \<in> set (map fst override).
                   metadataKeyViolation override baseline metadataKey) \<longrightarrow>
               (\<exists>m. validateEntry createArchetypes (JObj entireBaseline) (JObj overrides) pid =
                  ([ApiErrorObject pid
                      ''8. Any schema entries in the overrides file must be different from its baseline counterpart.''
                      m],
                   Inl AssertionError))) \<and>
              ((\<forall>metadataKey \<in> set (map fst override).
                   \<not> metadataKeyViolation override baseline metadataKey) \<longrightarrow>
               validateEntry createArchetypes (JObj entireBaseline) (JObj overrides) pid =
                 ([], Inr ()))))) \<and>
     (snd (validateOverridesFile createArchetypes (JObj entireBaseline) (JObj overrides)) = Inr ()
        \<longleftrightarrow>
      (\<forall>k \<in> set (map fst overrides).
         validateEntry createArchetypes (JObj entireBaseline) (JObj overrides) k = ([], Inr ())))"
proof -
  have o: "getProp (JObj overrides) pid = Inr (JObj override)"
    using assms by (simp add: getProp_def)
  have g: "getProp (JObj entireBaseline) pid = Inr (propertyOf entireBaseline pid)"
    by (simp add: getProp_def propertyOf_def)
  have s: "validateEntry createArchetypes (JObj entireBaseline) (JObj overrides) pid =
      ([], Inl TypeError)"
    if "''hasOwnProperty'' \<in> set (map fst entireBaseline)"
    using hasOwnProperty_JObj(2)[OF that, of pid] by (simp add: validateEntry_def Let_def)
  have a: "validateEntry True (JObj entireBaseline) (JObj overrides) pid =
          ([ApiErrorObject pid
              ''3. Any schema entries in the overrides file must exist in the baseline file.''
              ''phetioID expected in the baseline file but does not exist''],
           Inl AssertionError) \<and>
        validateEntry False (JObj entireBaseline) (JObj overrides) pid =
          ([], if String_indexOf pid ''archetype'' \<ge> 0 then Inr () else Inl AssertionError)"
    if n: "''hasOwnProperty'' \<notin> set (map fst entireBaseline)"
      and "pid \<notin> set (map fst entireBaseline)"
    using that(2) hasOwnProperty_JObj(1)[OF n, of pid]
    by (simp add: validateEntry_def Let_def assertAPIError_def assertE_def
        DYNAMIC_ARCHETYPE_NAME_def)
  have b: "validateEntry createArchetypes (JObj entireBaseline) (JObj overrides) pid =
          ([ApiErrorObject pid
              ''4. Any schema entries in the overrides file must be different from its baseline counterpart.''
              ''no metadata keys found for this override.''],
           Inl AssertionError)"
    if n: "''hasOwnProperty'' \<notin> set (map fst entireBaseline)"
      and "pid \<in> set (map fst entireBaseline)" "override = []"
    using that(2,3) hasOwnProperty_JObj(1)[OF n, of pid]
    by (simp add: validateEntry_def o g Let_def assertAPIError_def Object_keys_def)
  have c: "validateEntry createArchetypes (JObj entireBaseline) (JObj overrides) pid =
      metadataLoop pid (JObj override) (JObj baseline) (map fst override)"
    if n: "''hasOwnProperty'' \<notin> set (map fst entireBaseline)"
      and m: "map_of entireBaseline pid = Some (JObj baseline)" and ne: "override \<noteq> []"
    for baseline
  proof -
    have "pid \<in> set (map fst entireBaseline)"
      using m by (metis map_of_eq_None_iff option.distinct(1) set_map)
    then have "hasOwnProperty (JObj entireBaseline) pid = Inr True"
      using hasOwnProperty_JObj(1)[OF n, of pid] by simp
    moreover have "getProp (JObj entireBaseline) pid = Inr (JObj baseline)"
      using m by (simp add: getProp_def)
    ultimately show ?thesis
      using ne by (simp add: validateEntry_def o Let_def Object_keys_def)
  qed
  have t: "validateEntry createArchetypes (JObj entireBaseline) (JObj overrides) pid =
      ([], Inl TypeError)"
    if n: "''hasOwnProperty'' \<notin> set (map fst entireBaseline)"
      and m: "map_of entireBaseline pid = Some (JObj baseline)" and ne: "override \<noteq> []"
      and sh: "''hasOwnProperty'' \<in> set (map fst baseline)"
    for baseline
  proof -
    have "map fst override \<noteq> []" using ne by simp
    from c[OF n m ne] metadataLoop_shadowed[OF sh this, of pid "JObj override"]
    show ?thesis by simp
  qed
  have d: "\<exists>m. validateEntry createArchetypes (JObj entireBaseline) (JObj overrides) pid =
            ([ApiErrorObject pid
                ''8. Any schema entries in the overrides file must be different from its baseline counterpart.''
                m],
             Inl AssertionError)"
    if n: "''hasOwnProperty'' \<notin> set (map fst entireBaseline)"
      and m: "map_of entireBaseline pid = Some (JObj baseline)" and ne: "override \<noteq> []"
      and nb: "''hasOwnProperty'' \<notin> set (map fst baseline)"
      and v: "\<exists>metadataKey \<in> set (map fst override).
             metadataKeyViolation override baseline metadataKey"
    for baseline
    using c[OF n m ne] metadataLoop_violation[OF nb v, of pid] by simp
  have e: "validateEntry createArchetypes (JObj entireBaseline) (JObj overrides) pid =
           ([], Inr ())"
    if n: "''hasOwnProperty'' \<notin> set (map fst entireBaseline)"
      and m: "map_of entireBaseline pid = Some (JObj baseline)" and ne: "override \<noteq> []"
      and nb: "''hasOwnProperty'' \<notin> set (map fst baseline)"
      and v: "\<forall>metadataKey \<in> set (map fst override).
             \<not> metadataKeyViolation override baseline metadataKey"
    for baseline
    using c[OF n m ne] metadataLoop_clean[OF nb v, of pid] by simp
  have f: "snd (validateOverridesFile createArchetypes (JObj entireBaseline) (JObj overrides)) =
        Inr () \<longleftrightarrow>
      (\<forall>k \<in> set (map fst overrides).
         validateEntry createArchetypes (JObj entireBaseline) (JObj overrides) k = ([], Inr ()))"
    unfolding validateOverridesFile_def validateLoop_returns by (simp add: Object_keys_def)
  show ?thesis
  proof (intro conjI impI allI)
    show "snd (validateOverridesFile createArchetypes (JObj entireBaseline) (JObj overrides)) =
        Inr () \<longleftrightarrow>
      (\<forall>k \<in> set (map fst overrides).
         validateEntry createArchetypes (JObj entireBaseline) (JObj overrides) k = ([], Inr ()))"
      by (rule f)
  qed (use s a b t d e in \<open>blast+\<close>)
qed

text \<open>
  The theorem for \<open>demoBaseline\<close>: the override for the archetype is reported when archetypes
  are created at runtime and passes when they are not; the override that repeats the value
  of the baseline is reported; the override that changes it passes. Against a baseline whose
  only key is \<^verbatim>\<open>hasOwnProperty\<close>, the validation of that override is a TypeError.
\<close>

theorem validateOverridesFile_violations_witness:
  "validateEntry True demoBaseline archetypeOverrides
     ''sim.screen.model.particleGroup.archetype'' =
     ([ApiErrorObject ''sim.screen.model.particleGroup.archetype''
         ''3. Any schema entries in the overrides file must exist in the baseline file.''
         ''phetioID expected in the baseline file but does not exist''],
      Inl AssertionError) \<and>
   validateEntry False demoBaseline archetypeOverrides
     ''sim.screen.model.particleGroup.archetype'' = ([], Inr ()) \<and>
   (\<exists>m. validateEntry False demoBaseline staleOverrides ''sim.screen.model.massProperty'' =
      ([ApiErrorObject ''sim.screen.model.massProperty''
          ''8. Any schema entries in the overrides file must be different from its baseline counterpart.''
          m],
       Inl AssertionError)) \<and>
   snd (validateOverridesFile False demoBaseline staleOverrides) \<noteq> Inr () \<and>
   validateEntry False demoBaseline goodOverrides ''sim.screen.model.massProperty'' =
     ([], Inr ()) \<and>
   snd (validateOverridesFile False demoBaseline goodOverrides) = Inr () \<and>
   validateEntry False (JObj [(''hasOwnProperty'', JObj [])]) goodOverrides
     ''sim.screen.model.massProperty'' = ([], Inl TypeError)"
proof -
  let ?bl = "[(''sim.screen.model.massProperty'',
           JObj [(''phetioState'', JBool True), (''phetioReadOnly'', JBool False)])]"
  let ?ar = "[(''sim.screen.model.particleGroup.archetype'', JObj [(''phetioState'', JBool False)])]"
  let ?st = "[(''sim.screen.model.massProperty'', JObj [(''phetioState'', JBool True)])]"
  let ?go = "[(''sim.screen.model.massProperty'', JObj [(''phetioState'', JBool False)])]"
  have i: "String_indexOf ''sim.screen.model.particleGroup.archetype'' ''archetype'' \<ge> 0"
    by code_simp
  have v1: "metadataKeyViolation [(''phetioState'', JBool True)]
      [(''phetioState'', JBool True), (''phetioReadOnly'', JBool False)] ''phetioState''"
    by (simp add: metadataKeyViolation_def propertyOf_def strictEquals_def)
  have v2: "\<not> metadataKeyViolation [(''phetioState'', JBool False)]
      [(''phetioState'', JBool True), (''phetioReadOnly'', JBool False)] ''phetioState''"
    by (simp add: metadataKeyViolation_def propertyOf_def strictEquals_def)
  have t1: "map_of ?ar ''sim.screen.model.particleGroup.archetype'' =
      Some (JObj [(''phetioState'', JBool False)])" by simp
  have t2: "map_of ?st ''sim.screen.model.massProperty'' =
      Some (JObj [(''phetioState'', JBool True)])" by simp
  have t3: "map_of ?go ''sim.screen.model.massProperty'' =
      Some (JObj [(''phetioState'', JBool False)])" by simp
  note a = validateOverridesFile_violations [OF t1, of ?bl False]
  note b = validateOverridesFile_violations [OF t2, of ?bl False]
  note c = validateOverridesFile_violations [OF t3, of ?bl False]
  have a': "validateEntry True (JObj ?bl) (JObj ?ar) ''sim.screen.model.particleGroup.archetype'' =
     ([ApiErrorObject ''sim.screen.model.particleGroup.archetype''
         ''3. Any schema entries in the overrides file must exist in the baseline file.''
         ''phetioID expected in the baseline file but does not exist''],
      Inl AssertionError)"
    "validateEntry False (JObj ?bl) (JObj ?ar) ''sim.screen.model.particleGroup.archetype'' =
      ([], Inr ())"
    using a i by simp_all
  have b': "\<exists>m. validateEntry False (JObj ?bl) (JObj ?st) ''sim.screen.model.massProperty'' =
      ([ApiErrorObject ''sim.screen.model.massProperty''
          ''8. Any schema entries in the overrides file must be different from its baseline counterpart.''
          m],
       Inl AssertionError)"
    using b v1 by simp
  then have b'': "snd (validateOverridesFile False (JObj ?bl) (JObj ?st)) \<noteq> Inr ()"
    using b by auto
  have c': "validateEntry False (JObj ?bl) (JObj ?go) ''sim.screen.model.massProperty'' =
      ([], Inr ())"
    using c v2 by simp
  then have c'': "snd (validateOverridesFile False (JObj ?bl) (JObj ?go)) = Inr ()"
    using c by simp
  have d: "validateEntry False (JObj [(''hasOwnProperty'', JObj [])]) (JObj ?go)
      ''sim.screen.model.massProperty'' = ([], Inl TypeError)"
    using validateOverridesFile_violations [OF t3, of "[(''hasOwnProperty'', JObj [])]" False]
    by simp
  show ?thesis
    unfolding demoBaseline_def archetypeOverrides_def staleOverrides_def goodOverrides_def
    using a' b' b'' c' c'' d by blast
qed

end
